theory Spec2Isabelle
  imports Complex_Main "HOL-Library.Word"
begin

unbundle bit_operations_syntax

section \<open>MiniVSFS: the image builder and the file adder\<close>

text \<open>
  A shallow embedding of \<^verbatim>\<open>mkfs_builder.c\<close> and \<^verbatim>\<open>mkfs_adder.c\<close>. Both programs work on
  raw bytes: the packed structs \<^verbatim>\<open>superblock_t\<close> (116 bytes), \<^verbatim>\<open>inode_t\<close> (128 bytes) and
  \<^verbatim>\<open>dirent64_t\<close> (64 bytes) are overlaid on byte buffers, and the checksum routines hash
  the bytes behind a struct pointer. A buffer is a list of bytes, a pointer into it is an
  offset, and a struct value is a record with the encoder that lays its fields out as
  \<^verbatim>\<open>#pragma pack(1)\<close> does on a little-endian machine.

  C leaves an access outside a buffer undefined. In the model a read outside the list is
  HOL's unspecified \<open>xs ! i\<close> and a write outside it changes nothing; the theorems about
  images made by the builder only ever touch bytes inside the buffer.
\<close>

subsection \<open>Bytes, little-endian fields, buffers\<close>

type_synonym u8 = "8 word"
type_synonym u16 = "16 word"
type_synonym u32 = "32 word"
type_synonym u64 = "64 word"

definition BS :: nat where
  "BS = 4096"

definition INODE_SIZE :: nat where
  "INODE_SIZE = 128"

definition ROOT_INO :: u32 where
  "ROOT_INO = 1"

definition DIRECT_MAX :: nat where
  "DIRECT_MAX = 12"

definition le16 :: "u16 \<Rightarrow> u8 list" where
  "le16 w = [ucast w, ucast (drop_bit 8 w)]"

definition le32 :: "u32 \<Rightarrow> u8 list" where
  "le32 w = [ucast w, ucast (drop_bit 8 w), ucast (drop_bit 16 w), ucast (drop_bit 24 w)]"

definition le64 :: "u64 \<Rightarrow> u8 list" where
  "le64 w = [ucast w, ucast (drop_bit 8 w), ucast (drop_bit 16 w), ucast (drop_bit 24 w),
             ucast (drop_bit 32 w), ucast (drop_bit 40 w), ucast (drop_bit 48 w),
             ucast (drop_bit 56 w)]"

definition rd8 :: "u8 list \<Rightarrow> nat \<Rightarrow> u8" where
  "rd8 buf a = buf ! a"

definition rd16 :: "u8 list \<Rightarrow> nat \<Rightarrow> u16" where
  "rd16 buf a = ucast (buf ! a) OR push_bit 8 (ucast (buf ! (a + 1)))"

definition rd32 :: "u8 list \<Rightarrow> nat \<Rightarrow> u32" where
  "rd32 buf a = ucast (buf ! a) OR push_bit 8 (ucast (buf ! (a + 1)))
     OR push_bit 16 (ucast (buf ! (a + 2))) OR push_bit 24 (ucast (buf ! (a + 3)))"

definition rd64 :: "u8 list \<Rightarrow> nat \<Rightarrow> u64" where
  "rd64 buf a = ucast (buf ! a) OR push_bit 8 (ucast (buf ! (a + 1)))
     OR push_bit 16 (ucast (buf ! (a + 2))) OR push_bit 24 (ucast (buf ! (a + 3)))
     OR push_bit 32 (ucast (buf ! (a + 4))) OR push_bit 40 (ucast (buf ! (a + 5)))
     OR push_bit 48 (ucast (buf ! (a + 6))) OR push_bit 56 (ucast (buf ! (a + 7)))"

text \<open>\<^verbatim>\<open>memcpy(buf + off, bs, n)\<close> and the bytes \<^verbatim>\<open>buf[off .. off+n)\<close>.\<close>

definition write_bytes :: "u8 list \<Rightarrow> nat \<Rightarrow> u8 list \<Rightarrow> u8 list" where
  "write_bytes buf off bs =
     (if off + length bs \<le> length buf
      then take off buf @ bs @ drop (off + length bs) buf else buf)"

definition read_bytes :: "u8 list \<Rightarrow> nat \<Rightarrow> nat \<Rightarrow> u8 list" where
  "read_bytes buf off n = take n (drop off buf)"

definition wr16 :: "u8 list \<Rightarrow> nat \<Rightarrow> u16 \<Rightarrow> u8 list" where
  "wr16 buf a w = write_bytes buf a (le16 w)"

definition wr32 :: "u8 list \<Rightarrow> nat \<Rightarrow> u32 \<Rightarrow> u8 list" where
  "wr32 buf a w = write_bytes buf a (le32 w)"

definition wr64 :: "u8 list \<Rightarrow> nat \<Rightarrow> u64 \<Rightarrow> u8 list" where
  "wr64 buf a w = write_bytes buf a (le64 w)"

subsection \<open>The packed structs\<close>

record superblock_t =
  sb_magic :: u32
  sb_version :: u32
  sb_block_size :: u32
  sb_total_blocks :: u64
  sb_inode_count :: u64
  sb_inode_bitmap_start :: u64
  sb_inode_bitmap_blocks :: u64
  sb_data_bitmap_start :: u64
  sb_data_bitmap_blocks :: u64
  sb_inode_table_start :: u64
  sb_inode_table_blocks :: u64
  sb_data_region_start :: u64
  sb_data_region_blocks :: u64
  sb_root_inode :: u64
  sb_mtime_epoch :: u64
  sb_flags :: u32
  sb_checksum :: u32

record inode_t =
  i_mode :: u16
  i_links :: u16
  i_uid :: u32
  i_gid :: u32
  i_size_bytes :: u64
  i_atime :: u64
  i_mtime :: u64
  i_ctime :: u64
  i_direct :: "u32 list"
  i_reserved_0 :: u32
  i_reserved_1 :: u32
  i_reserved_2 :: u32
  i_proj_id :: u32
  i_uid16_gid16 :: u32
  i_xattr_ptr :: u64
  i_inode_crc :: u64

record dirent64_t =
  de_inode_no :: u32
  de_type :: u8
  de_name :: "u8 list"
  de_checksum :: u8

text \<open>Byte offsets of the fields the programs reach through a struct pointer.\<close>

definition off_sb_magic :: nat where "off_sb_magic = 0"
definition off_sb_block_size :: nat where "off_sb_block_size = 8"
definition off_sb_inode_count :: nat where "off_sb_inode_count = 20"
definition off_sb_inode_bitmap_start :: nat where "off_sb_inode_bitmap_start = 28"
definition off_sb_data_bitmap_start :: nat where "off_sb_data_bitmap_start = 44"
definition off_sb_inode_table_start :: nat where "off_sb_inode_table_start = 60"
definition off_sb_data_region_start :: nat where "off_sb_data_region_start = 76"
definition off_sb_data_region_blocks :: nat where "off_sb_data_region_blocks = 84"
definition off_sb_mtime_epoch :: nat where "off_sb_mtime_epoch = 100"
definition off_sb_checksum :: nat where "off_sb_checksum = 112"
definition sizeof_superblock :: nat where "sizeof_superblock = 116"

definition off_i_links :: nat where "off_i_links = 2"
definition off_i_size_bytes :: nat where "off_i_size_bytes = 12"
definition off_i_direct :: nat where "off_i_direct = 44"
definition off_i_inode_crc :: nat where "off_i_inode_crc = 120"

definition off_de_type :: nat where "off_de_type = 4"
definition off_de_name :: nat where "off_de_name = 5"
definition off_de_checksum :: nat where "off_de_checksum = 63"
definition sizeof_dirent :: nat where "sizeof_dirent = 64"

definition superblock_bytes :: "superblock_t \<Rightarrow> u8 list" where
  "superblock_bytes sb =
     le32 (sb_magic sb) @ le32 (sb_version sb) @ le32 (sb_block_size sb)
     @ le64 (sb_total_blocks sb) @ le64 (sb_inode_count sb)
     @ le64 (sb_inode_bitmap_start sb) @ le64 (sb_inode_bitmap_blocks sb)
     @ le64 (sb_data_bitmap_start sb) @ le64 (sb_data_bitmap_blocks sb)
     @ le64 (sb_inode_table_start sb) @ le64 (sb_inode_table_blocks sb)
     @ le64 (sb_data_region_start sb) @ le64 (sb_data_region_blocks sb)
     @ le64 (sb_root_inode sb) @ le64 (sb_mtime_epoch sb)
     @ le32 (sb_flags sb) @ le32 (sb_checksum sb)"

text \<open>\<open>i_direct\<close> is the array \<^verbatim>\<open>direct[DIRECT_MAX]\<close>: its first 12 elements are laid out.\<close>

definition inode_bytes :: "inode_t \<Rightarrow> u8 list" where
  "inode_bytes ino =
     le16 (i_mode ino) @ le16 (i_links ino) @ le32 (i_uid ino) @ le32 (i_gid ino)
     @ le64 (i_size_bytes ino) @ le64 (i_atime ino) @ le64 (i_mtime ino) @ le64 (i_ctime ino)
     @ concat (map (\<lambda>k. le32 (i_direct ino ! k)) [0..<DIRECT_MAX])
     @ le32 (i_reserved_0 ino) @ le32 (i_reserved_1 ino) @ le32 (i_reserved_2 ino)
     @ le32 (i_proj_id ino) @ le32 (i_uid16_gid16 ino)
     @ le64 (i_xattr_ptr ino) @ le64 (i_inode_crc ino)"

text \<open>\<open>de_name\<close> is the array \<^verbatim>\<open>name[58]\<close>: 58 bytes are laid out, NUL-padded.\<close>

definition dirent_bytes :: "dirent64_t \<Rightarrow> u8 list" where
  "dirent_bytes de =
     le32 (de_inode_no de) @ [de_type de]
     @ take 58 (de_name de) @ replicate (58 - length (de_name de)) 0
     @ [de_checksum de]"

subsection \<open>CRC-32\<close>

text \<open>The inner loop of \<^verbatim>\<open>crc32_init\<close>: one step \<^verbatim>\<open>c = (c&1) ? (0xEDB88320 ^ (c>>1)) : (c>>1)\<close>.\<close>

definition crc32_shift :: "u32 \<Rightarrow> u32" where
  "crc32_shift c = (if c AND 1 \<noteq> 0 then 0xEDB88320 XOR drop_bit 1 c else drop_bit 1 c)"

definition CRC32_TAB :: "u32 list" where
  "CRC32_TAB = map (\<lambda>i. (crc32_shift ^^ 8) (of_nat i)) [0..<256]"

definition crc32_step :: "u32 \<Rightarrow> u8 \<Rightarrow> u32" where
  "crc32_step c b = CRC32_TAB ! unat ((c XOR ucast b) AND 0xFF) XOR drop_bit 8 c"

text \<open>\<^verbatim>\<open>crc32_update\<close> of the adder; the loop of the builder's \<^verbatim>\<open>crc32\<close> is the same.\<close>

definition crc32_update :: "u32 \<Rightarrow> u8 list \<Rightarrow> u32" where
  "crc32_update crc buf = foldl crc32_step crc buf"

text \<open>The builder's \<^verbatim>\<open>crc32(data, n)\<close>, on the \<open>n\<close> bytes it is given.\<close>

definition crc32 :: "u8 list \<Rightarrow> u32" where
  "crc32 p = crc32_update 0xFFFFFFFF p XOR 0xFFFFFFFF"

text \<open>The adder's \<^verbatim>\<open>crc32_finalize(buf, len)\<close>.\<close>

definition crc32_finalize :: "u8 list \<Rightarrow> u32" where
  "crc32_finalize buf = (let c = 0xFFFFFFFF; c = crc32_update c buf in c XOR 0xFFFFFFFF)"

subsection \<open>The checksum routines\<close>

text \<open>
  Each routine takes a struct pointer: here the memory \<open>mem\<close> and the offset \<open>p\<close> of the
  struct in it. The builder's \<^verbatim>\<open>superblock_crc_finalize\<close> hashes \<^verbatim>\<open>BS - 4\<close> bytes from the
  pointer on, whatever lies there; the adder's hashes \<^verbatim>\<open>sizeof(*sb)\<close> bytes.
\<close>

definition superblock_crc_finalize_builder :: "u8 list \<Rightarrow> nat \<Rightarrow> u8 list" where
  "superblock_crc_finalize_builder mem p =
     (let mem0 = wr32 mem (p + off_sb_checksum) 0;
          s = crc32 (read_bytes mem0 p (BS - 4))
      in wr32 mem0 (p + off_sb_checksum) s)"

definition superblock_crc_finalize_adder :: "u8 list \<Rightarrow> nat \<Rightarrow> u8 list" where
  "superblock_crc_finalize_adder mem p =
     (let mem0 = wr32 mem (p + off_sb_checksum) 0
      in wr32 mem0 (p + off_sb_checksum) (crc32_finalize (read_bytes mem0 p sizeof_superblock)))"

text \<open>The builder copies the inode to \<^verbatim>\<open>tmp\<close>, zeroes \<^verbatim>\<open>tmp[120..128)\<close> and hashes 120 bytes.\<close>

definition inode_crc_finalize_builder :: "u8 list \<Rightarrow> nat \<Rightarrow> u8 list" where
  "inode_crc_finalize_builder mem p =
     (let tmp = read_bytes mem p INODE_SIZE;
          tmp = write_bytes tmp 120 (replicate 8 0);
          c = crc32 (read_bytes tmp 0 120)
      in wr64 mem (p + off_i_inode_crc) (ucast c))"

text \<open>The adder zeroes the field in place and hashes \<^verbatim>\<open>sizeof(*in)\<close> bytes.\<close>

definition inode_crc_finalize_adder :: "u8 list \<Rightarrow> nat \<Rightarrow> u8 list" where
  "inode_crc_finalize_adder mem p =
     (let mem0 = wr64 mem (p + off_i_inode_crc) 0;
          c = crc32_finalize (read_bytes mem0 p INODE_SIZE)
      in wr64 mem0 (p + off_i_inode_crc) (ucast c))"

text \<open>The same text in both programs: the XOR of the first 63 bytes.\<close>

definition dirent_checksum_finalize :: "u8 list \<Rightarrow> nat \<Rightarrow> u8 list" where
  "dirent_checksum_finalize mem p =
     (let x = foldl (\<lambda>x i. x XOR mem ! (p + i)) 0 [0..<63]
      in mem[p + off_de_checksum := x])"

subsection \<open>Bitmap helpers\<close>

text \<open>\<open>bm\<close> is the offset of the bitmap in the buffer; \<^verbatim>\<open>idx>>3\<close> is \<open>idx div 8\<close> and
  \<^verbatim>\<open>idx & 7\<close> is \<open>idx mod 8\<close>.\<close>

definition bitmap_set :: "u8 list \<Rightarrow> nat \<Rightarrow> nat \<Rightarrow> u8 list" where
  "bitmap_set buf bm idx =
     buf[bm + idx div 8 := buf ! (bm + idx div 8) OR push_bit (idx mod 8) 1]"

definition bitmap_clear :: "u8 list \<Rightarrow> nat \<Rightarrow> nat \<Rightarrow> u8 list" where
  "bitmap_clear buf bm idx =
     buf[bm + idx div 8 := buf ! (bm + idx div 8) AND NOT (push_bit (idx mod 8) 1)]"

definition bitmap_test :: "u8 list \<Rightarrow> nat \<Rightarrow> nat \<Rightarrow> bool" where
  "bitmap_test buf bm idx = (drop_bit (idx mod 8) (buf ! (bm + idx div 8)) AND 1 \<noteq> 0)"

text \<open>\<^verbatim>\<open>bitmap_ffz\<close>: the first index below \<open>bits\<close> whose bit is clear; \<open>None\<close> is the -1.\<close>

definition bitmap_ffz :: "u8 list \<Rightarrow> nat \<Rightarrow> nat \<Rightarrow> nat option" where
  "bitmap_ffz buf bm bits = find (\<lambda>i. \<not> bitmap_test buf bm i) [0..<bits]"

subsection \<open>The builder: \<^verbatim>\<open>mkfs_builder.c\<close>, \<^verbatim>\<open>main\<close>\<close>

text \<open>
  The parsed command line is \<open>image_path\<close> (\<open>None\<close> when \<^verbatim>\<open>--image\<close> is absent), \<open>size_kib\<close> and
  \<open>inode_count\<close> (C \<^verbatim>\<open>long\<close>, -1 when absent). The layout is computed in \<^verbatim>\<open>main\<close>; each of its
  constants is a definition here. \<open>size_kib\<close> is cast to \<^verbatim>\<open>uint64_t\<close> before the product;
  the inode-table size is computed in \<^verbatim>\<open>long\<close>, where the validated range cannot overflow
  and the operands are positive.
\<close>

definition total_blocks :: "int \<Rightarrow> u64" where
  "total_blocks size_kib = (of_int size_kib * 1024) div 4096"

definition inode_table_blocks :: "int \<Rightarrow> u64" where
  "inode_table_blocks inode_count = of_int ((inode_count * 128 + (4096 - 1)) div 4096)"

definition inode_bitmap_start :: u64 where
  "inode_bitmap_start = 1"

definition data_bitmap_start :: u64 where
  "data_bitmap_start = 2"

definition inode_table_start :: u64 where
  "inode_table_start = 3"

definition data_region_start :: "int \<Rightarrow> u64" where
  "data_region_start inode_count = inode_table_start + inode_table_blocks inode_count"

definition data_region_blocks :: "int \<Rightarrow> int \<Rightarrow> u64" where
  "data_region_blocks size_kib inode_count = total_blocks size_kib - data_region_start inode_count"

text \<open>\<^verbatim>\<open>strncpy(dst, src, n)\<close> into an array: \<open>n\<close> bytes are written, NUL-padded. A C string is
  the list of its bytes before the terminating NUL.\<close>

definition strncpy :: "u8 list \<Rightarrow> u8 list \<Rightarrow> nat \<Rightarrow> u8 list" where
  "strncpy dst src n = write_bytes dst 0 (take n src @ replicate (n - length src) 0)"

definition root_inode :: "int \<Rightarrow> u64 \<Rightarrow> inode_t" where
  "root_inode inode_count now =
     \<lparr> i_mode = 0x4000, i_links = 2, i_uid = 0, i_gid = 0,
       i_size_bytes = of_nat (2 * sizeof_dirent),
       i_atime = now, i_mtime = now, i_ctime = now,
       i_direct = (replicate DIRECT_MAX 0)[0 := ucast (data_region_start inode_count + 0)],
       i_reserved_0 = 0, i_reserved_1 = 0, i_reserved_2 = 0,
       i_proj_id = 14, i_uid16_gid16 = 0, i_xattr_ptr = 0, i_inode_crc = 0 \<rparr>"

definition dir_entry :: "u8 list \<Rightarrow> dirent64_t" where
  "dir_entry nm =
     \<lparr> de_inode_no = ROOT_INO, de_type = 2,
       de_name = strncpy (replicate 58 0) nm (58 - 1), de_checksum = 0 \<rparr>"

definition dot :: "u8 list" where
  "dot = dirent_checksum_finalize (dirent_bytes (dir_entry [0x2E])) 0"

definition dotdot :: "u8 list" where
  "dotdot = dirent_checksum_finalize (dirent_bytes (dir_entry [0x2E, 0x2E])) 0"

definition builder_superblock :: "int \<Rightarrow> int \<Rightarrow> u64 \<Rightarrow> superblock_t" where
  "builder_superblock size_kib inode_count now =
     \<lparr> sb_magic = 0x4D565346, sb_version = 1, sb_block_size = of_nat BS,
       sb_total_blocks = total_blocks size_kib,
       sb_inode_count = of_int inode_count,
       sb_inode_bitmap_start = inode_bitmap_start, sb_inode_bitmap_blocks = 1,
       sb_data_bitmap_start = data_bitmap_start, sb_data_bitmap_blocks = 1,
       sb_inode_table_start = inode_table_start,
       sb_inode_table_blocks = inode_table_blocks inode_count,
       sb_data_region_start = data_region_start inode_count,
       sb_data_region_blocks = data_region_blocks size_kib inode_count,
       sb_root_inode = ucast ROOT_INO, sb_mtime_epoch = now,
       sb_flags = 0, sb_checksum = 0 \<rparr>"

datatype builder_error = UsageError | ImageTooSmall | InvalidLayout

text \<open>\<open>BuilderFail e code\<close>: the message and the value \<^verbatim>\<open>main\<close> returns; \<open>Created file\<close>: exit
  code 0 and the bytes written to the image file.\<close>

datatype builder_result = BuilderFail builder_error int | Created "u8 list"

text \<open>
  \<open>now\<close> is \<^verbatim>\<open>(uint64_t)time(NULL)\<close>. \<^verbatim>\<open>superblock_crc_finalize(&sb)\<close> is given the address of
  the 116-byte local \<^verbatim>\<open>sb\<close> and hashes 4092 bytes from there: \<open>stack\<close> is the memory that
  follows \<^verbatim>\<open>sb\<close>, which the program does not determine. Allocation and file output are taken
  to succeed.
\<close>

definition mkfs_builder_main ::
  "string option \<Rightarrow> int \<Rightarrow> int \<Rightarrow> u64 \<Rightarrow> u8 list \<Rightarrow> builder_result" where
  "mkfs_builder_main image_path size_kib inode_count now stack =
     (if image_path = None \<or> size_kib < 180 \<or> size_kib > 4096 \<or> size_kib mod 4 \<noteq> 0
         \<or> inode_count < 128 \<or> inode_count > 512
      then BuilderFail UsageError 2
      else if total_blocks size_kib < 1 + 1 + 1 + 1 then BuilderFail ImageTooSmall 2
      else if data_region_start inode_count \<ge> total_blocks size_kib
      then BuilderFail InvalidLayout 2
      else
        let inode_bm = replicate BS 0;
            data_bm = replicate BS 0;
            itab = replicate (nat inode_count * INODE_SIZE) 0;
            data = replicate (unat (data_region_blocks size_kib inode_count) * BS) 0;
            inode_bm = bitmap_set inode_bm 0 0;
            data_bm = bitmap_set data_bm 0 0;
            itab = write_bytes itab 0 (inode_bytes (root_inode inode_count now));
            itab = inode_crc_finalize_builder itab 0;
            data = write_bytes data (0 * sizeof_dirent) dot;
            data = write_bytes data (1 * sizeof_dirent) dotdot;
            sb = superblock_crc_finalize_builder
                   (superblock_bytes (builder_superblock size_kib inode_count now) @ stack) 0;
            sbpad = write_bytes (replicate BS 0) 0 (read_bytes sb 0 sizeof_superblock);
            it_bytes = nat inode_count * INODE_SIZE;
            it_pad = unat (inode_table_blocks inode_count) * BS - it_bytes
        in Created (sbpad @ inode_bm @ data_bm @ itab @ replicate it_pad 0 @ data))"

text \<open>The bytes of the image file a run has created (none when it failed).\<close>

fun created_image :: "builder_result \<Rightarrow> u8 list" where
  "created_image (Created file) = file"
| "created_image (BuilderFail e code) = []"

text \<open>The image of the scenario: 180 KiB, 128 inodes.\<close>

definition fresh_image :: "u64 \<Rightarrow> u8 list \<Rightarrow> u8 list" where
  "fresh_image now stack = created_image (mkfs_builder_main (Some []) 180 128 now stack)"

subsection \<open>The adder: \<^verbatim>\<open>mkfs_adder.c\<close>, \<^verbatim>\<open>main\<close>\<close>

datatype adder_error =
  EmptyImage | FormatMismatch | NoFreeInode | InodeIndexOOB | FileTooLarge
  | NoFreeDataBlocks | RootMissingBlock | AlreadyExists | DirectoryFull

text \<open>\<open>Fail e code buf\<close>: the message, the value \<^verbatim>\<open>main\<close> returns, and the image buffer as it is
  when it is freed (no output file is written). \<open>Written buf\<close>: exit code 0 and the bytes
  written to the output file.\<close>

datatype adder_result = Fail adder_error int "u8 list" | Written "u8 list"

text \<open>The bytes of the output file a run has written (none when it failed).\<close>

fun written_image :: "adder_result \<Rightarrow> u8 list" where
  "written_image (Written buf) = buf"
| "written_image (Fail e code buf) = []"

text \<open>The value \<^verbatim>\<open>main\<close> returns.\<close>

fun exit_code :: "adder_result \<Rightarrow> int" where
  "exit_code (Fail e code buf) = code"
| "exit_code (Written buf) = 0"

text \<open>\<^verbatim>\<open>strrchr(filepath, '/')\<close> and the step past it.\<close>

definition basename :: "u8 list \<Rightarrow> u8 list" where
  "basename filepath = rev (takeWhile (\<lambda>c. c \<noteq> 0x2F) (rev filepath))"

text \<open>\<^verbatim>\<open>strncmp(a, b, n) == 0\<close> as the C library defines it; a list that has run out stands
  at its terminating NUL.\<close>

fun strncmp_eq :: "u8 list \<Rightarrow> u8 list \<Rightarrow> nat \<Rightarrow> bool" where
  "strncmp_eq a b 0 = True"
| "strncmp_eq a b (Suc n) =
     (let x = (case a of [] \<Rightarrow> 0 | x # _ \<Rightarrow> x);
          y = (case b of [] \<Rightarrow> 0 | y # _ \<Rightarrow> y)
      in if x \<noteq> y then False else if x = 0 then True else strncmp_eq (tl a) (tl b) n)"

text \<open>The allocation loop: \<open>is\<close> are the values of \<^verbatim>\<open>i\<close> still to run. On exhaustion the
  buffer is returned as the loop left it.\<close>

fun alloc_blocks ::
  "u8 list \<Rightarrow> nat \<Rightarrow> nat \<Rightarrow> u64 \<Rightarrow> nat list \<Rightarrow> u32 list \<Rightarrow> u8 list + u8 list \<times> u32 list" where
  "alloc_blocks img data_bm bits drs [] direct = Inr (img, direct)"
| "alloc_blocks img data_bm bits drs (i # is) direct =
     (case bitmap_ffz img data_bm bits of
        None \<Rightarrow> Inl img
      | Some idx \<Rightarrow>
          alloc_blocks (bitmap_set img data_bm idx) data_bm bits drs is
            (direct[i := ucast (drs + of_nat idx)]))"

text \<open>The scan of the root directory block: \<open>Inl AlreadyExists\<close> is the early return, else the
  first free slot (\<open>None\<close> is the -1) and the number of used entries.\<close>

fun dir_scan ::
  "u8 list \<Rightarrow> nat \<Rightarrow> u8 list \<Rightarrow> nat list \<Rightarrow> nat option \<Rightarrow> nat \<Rightarrow> adder_error + nat option \<times> nat" where
  "dir_scan img dblk base [] slot used_entries = Inr (slot, used_entries)"
| "dir_scan img dblk base (i # is) slot used_entries =
     (if rd32 img (dblk + i * sizeof_dirent) \<noteq> 0
      then if strncmp_eq (read_bytes img (dblk + i * sizeof_dirent + off_de_name) 58) base 58
           then Inl AlreadyExists
           else dir_scan img dblk base is slot (used_entries + 1)
      else if slot = None then dir_scan img dblk base is (Some i) used_entries
      else dir_scan img dblk base is slot used_entries)"

definition file_inode :: "nat \<Rightarrow> u64 \<Rightarrow> u32 list \<Rightarrow> inode_t" where
  "file_inode fsz now direct =
     \<lparr> i_mode = 0x8000, i_links = 1, i_uid = 0, i_gid = 0,
       i_size_bytes = of_nat fsz,
       i_atime = now, i_mtime = now, i_ctime = now,
       i_direct = direct,
       i_reserved_0 = 0, i_reserved_1 = 0, i_reserved_2 = 0,
       i_proj_id = 14, i_uid16_gid16 = 0, i_xattr_ptr = 0, i_inode_crc = 0 \<rparr>"

text \<open>One round of the copy loop: block \<open>i\<close> of the file goes to block \<open>absb\<close>, zero-padded.\<close>

definition write_file_block :: "u8 list \<Rightarrow> nat \<Rightarrow> u32 list \<Rightarrow> u8 list \<Rightarrow> nat \<Rightarrow> u8 list" where
  "write_file_block fbuf fsz direct img i =
     (let absb = direct ! i;
          blk = unat absb * BS;
          remain = (if fsz > i * BS then fsz - i * BS else 0);
          tocopy = (if remain > BS then BS else remain);
          img = (if tocopy \<noteq> 0 then write_bytes img blk (read_bytes fbuf (i * BS) tocopy) else img)
      in if tocopy < BS then write_bytes img (blk + tocopy) (replicate (BS - tocopy) 0) else img)"

definition file_dirent :: "u32 \<Rightarrow> u8 list \<Rightarrow> dirent64_t" where
  "file_dirent new_ino base =
     \<lparr> de_inode_no = new_ino, de_type = 1,
       de_name = strncpy (replicate 58 0) base (58 - 1), de_checksum = 0 \<rparr>"

text \<open>
  \<open>img\<close> is the image file as read (\<open>isz\<close> is its length), \<open>fbuf\<close> the file to add (\<open>fsz\<close> its
  length), \<open>now\<close> is \<^verbatim>\<open>(uint64_t)time(NULL)\<close>. Opening, reading and writing files are taken
  to succeed. Offsets are computed in \<^verbatim>\<open>size_t\<close>, so the products wrap at 64 bits.
\<close>

definition mkfs_adder_main :: "u8 list \<Rightarrow> u8 list \<Rightarrow> u8 list \<Rightarrow> u64 \<Rightarrow> adder_result" where
  "mkfs_adder_main img filepath fbuf now =
     (if length img = 0 then Fail EmptyImage 1 img
      else if rd32 img off_sb_block_size \<noteq> of_nat BS \<or> rd32 img off_sb_magic \<noteq> 0x4D565346
      then Fail FormatMismatch 2 img
      else
        let inode_bm = unat (rd64 img off_sb_inode_bitmap_start * of_nat BS);
            data_bm = unat (rd64 img off_sb_data_bitmap_start * of_nat BS);
            itab = unat (rd64 img off_sb_inode_table_start * of_nat BS);
            fsz = length fbuf
        in case bitmap_ffz img inode_bm (unat (rd64 img off_sb_inode_count)) of
             None \<Rightarrow> Fail NoFreeInode 1 img
           | Some free_in \<Rightarrow>
        if free_in \<ge> unat (rd64 img off_sb_inode_count) then Fail InodeIndexOOB 1 img
        else
        let new_ino = (of_nat (free_in + 1) :: u32);
            blocks_needed = ((of_nat fsz + (of_nat BS - 1)) div of_nat BS :: u64)
        in if blocks_needed > of_nat DIRECT_MAX then Fail FileTooLarge 1 img
        else
        case alloc_blocks img data_bm (unat (rd64 img off_sb_data_region_blocks))
               (rd64 img off_sb_data_region_start) [0..<unat blocks_needed]
               (replicate DIRECT_MAX 0) of
          Inl img \<Rightarrow> Fail NoFreeDataBlocks 1 img
        | Inr (img, direct) \<Rightarrow>
        let first_dir_block = rd32 img (itab + off_i_direct)
        in if first_dir_block = 0 then Fail RootMissingBlock 1 img
        else
        let dblk = unat ((ucast first_dir_block :: u64) * of_nat BS);
            entries = BS div sizeof_dirent;
            base = basename filepath
        in case dir_scan img dblk base [0..<entries] None 0 of
             Inl e \<Rightarrow> Fail e 1 img
           | Inr (None, used_entries) \<Rightarrow> Fail DirectoryFull 1 img
           | Inr (Some slot, used_entries) \<Rightarrow>
        let inode = itab + free_in * INODE_SIZE;
            img = write_bytes img inode (inode_bytes (file_inode fsz now direct));
            img = inode_crc_finalize_adder img inode;
            img = bitmap_set img inode_bm free_in;
            img = foldl (write_file_block fbuf fsz direct) img [0..<unat blocks_needed];
            de = dirent_checksum_finalize (dirent_bytes (file_dirent new_ino base)) 0;
            img = write_bytes img (dblk + slot * sizeof_dirent) de;
            img = wr16 img (itab + off_i_links) (rd16 img (itab + off_i_links) + 1);
            used_entries = used_entries + 1;
            img = wr64 img (itab + off_i_size_bytes) (of_nat (used_entries * sizeof_dirent));
            img = inode_crc_finalize_adder img itab;
            img = wr64 img off_sb_mtime_epoch now;
            img = superblock_crc_finalize_adder img 0
        in Written img)"

section \<open>The layout computed by the builder\<close>

lemma unat_of_int_u64: "0 \<le> k \<Longrightarrow> k < 2 ^ 64 \<Longrightarrow> unat (of_int k :: u64) = nat k"
  by (simp add: unat_eq_nat_uint uint_word_of_int)

lemma unat_total_blocks:
  assumes "0 \<le> sk" "sk \<le> 4096"
  shows "unat (total_blocks sk) = nat sk * 1024 div 4096"
proof -
  have "unat (of_int sk * 1024 :: u64) = nat sk * 1024"
    using assms by (simp add: unat_eq_nat_uint uint_word_ariths uint_word_of_int nat_mult_distrib)
  then show ?thesis
    by (simp add: total_blocks_def unat_div)
qed

lemma unat_inode_table_blocks:
  assumes "0 \<le> ic" "ic \<le> 512"
  shows "unat (inode_table_blocks ic) = (nat ic * 128 + 4095) div 4096"
proof -
  have "0 \<le> (ic * 128 + 4095) div 4096" "(ic * 128 + 4095) div 4096 < 2 ^ 64"
    using assms by auto
  then have "unat (inode_table_blocks ic) = nat ((ic * 128 + 4095) div 4096)"
    by (simp add: inode_table_blocks_def unat_of_int_u64)
  also have "\<dots> = (nat ic * 128 + 4095) div 4096"
    using assms by (simp add: nat_div_distrib nat_add_distrib nat_mult_distrib)
  finally show ?thesis .
qed

lemma inode_table_blocks_ceiling:
  assumes "0 \<le> ic" "ic \<le> 512"
  shows "int (unat (inode_table_blocks ic)) = \<lceil>real_of_int (ic * 128) / 4096\<rceil>"
proof -
  have "\<lceil>real_of_int (ic * 128) / 4096\<rceil> = (ic * 128 + 4095) div 4096"
    by (simp add: ceiling_divide_eq_div) linarith
  also have "\<dots> = int ((nat ic * 128 + 4095) div 4096)"
    using assms by (simp add: zdiv_int nat_add_distrib nat_mult_distrib)
  finally show ?thesis
    using assms by (simp add: unat_inode_table_blocks)
qed

lemma unat_data_region_start:
  assumes "0 \<le> ic" "ic \<le> 512"
  shows "unat (data_region_start ic) = 3 + unat (inode_table_blocks ic)"
proof -
  have "unat (inode_table_blocks ic) \<le> 16"
    using assms by (simp add: unat_inode_table_blocks)
  then show ?thesis
    by (simp add: data_region_start_def inode_table_start_def unat_word_ariths)
qed

lemma layout_bounds:
  assumes "180 \<le> sk" "sk \<le> 4096" "128 \<le> ic" "ic \<le> 512"
  shows "45 \<le> unat (total_blocks sk)" and "unat (data_region_start ic) \<le> 19"
    and "data_region_start ic < total_blocks sk"
proof -
  show a: "45 \<le> unat (total_blocks sk)"
    using assms by (simp add: unat_total_blocks)
  show b: "unat (data_region_start ic) \<le> 19"
    using assms by (simp add: unat_data_region_start unat_inode_table_blocks)
  from a b show "data_region_start ic < total_blocks sk"
    by (simp add: word_less_nat_alt)
qed

lemma unat_data_region_blocks:
  assumes "180 \<le> sk" "sk \<le> 4096" "128 \<le> ic" "ic \<le> 512"
  shows "unat (data_region_blocks sk ic) = unat (total_blocks sk) - unat (data_region_start ic)"
  using layout_bounds(3)[OF assms]
  by (simp add: data_region_blocks_def unat_sub word_le_nat_alt word_less_nat_alt)

text \<open>
  Claim C8. For every valid pair (\<open>size_kib\<close> from 180 to 4096 and a multiple of 4,
  \<open>inode_count\<close> from 128 to 512) the layout computed in \<^verbatim>\<open>main\<close> is: total blocks
  \<open>size_kib * 1024 / 4096\<close>, inode-table blocks the ceiling of \<open>inode_count * 128 / 4096\<close>,
  inode bitmap at block 1, data bitmap at block 2, inode table from block 3, data region
  from block 3 plus the inode-table blocks and running to the last block; the blocks make
  up exactly \<open>size_kib * 1024\<close> bytes. The layout is a function of the two inputs alone.
\<close>

theorem layout_planner:
  assumes "180 \<le> size_kib" "size_kib \<le> 4096" "size_kib mod 4 = 0"
    and "128 \<le> inode_count" "inode_count \<le> 512"
  shows "unat (total_blocks size_kib) = nat size_kib * 1024 div 4096
    \<and> unat (inode_table_blocks inode_count) = nat \<lceil>real_of_int (inode_count * 128) / 4096\<rceil>
    \<and> inode_bitmap_start = 1 \<and> data_bitmap_start = 2 \<and> inode_table_start = 3
    \<and> unat (data_region_start inode_count) = 3 + unat (inode_table_blocks inode_count)
    \<and> unat (data_region_start inode_count) + unat (data_region_blocks size_kib inode_count)
        = unat (total_blocks size_kib)
    \<and> unat (total_blocks size_kib) * BS = nat size_kib * 1024"
proof -
  have b: "0 \<le> size_kib" "0 \<le> inode_count"
    using assms by simp_all
  have lt: "unat (data_region_start inode_count) \<le> unat (total_blocks size_kib)"
    using layout_bounds(1,2)[OF assms(1,2,4,5)] by simp
  have "nat size_kib mod 4 = 0"
    using assms(3) b(1) nat_mod_distrib [of size_kib 4] by simp
  then obtain k where k: "nat size_kib = 4 * k"
    by (auto simp: mod_eq_0_iff_dvd)
  have sz: "nat size_kib * 1024 div 4096 * 4096 = nat size_kib * 1024"
    unfolding k by simp
  have c1: "unat (total_blocks size_kib) = nat size_kib * 1024 div 4096"
    by (rule unat_total_blocks[OF b(1) assms(2)])
  have c2: "unat (inode_table_blocks inode_count) = nat \<lceil>real_of_int (inode_count * 128) / 4096\<rceil>"
    unfolding inode_table_blocks_ceiling[OF b(2) assms(5), symmetric] by (rule nat_int [symmetric])
  have c3: "unat (data_region_start inode_count) = 3 + unat (inode_table_blocks inode_count)"
    by (rule unat_data_region_start[OF b(2) assms(5)])
  have c4: "unat (data_region_start inode_count) + unat (data_region_blocks size_kib inode_count)
        = unat (total_blocks size_kib)"
    using lt by (simp add: unat_data_region_blocks[OF assms(1,2,4,5)])
  have c5: "unat (total_blocks size_kib) * BS = nat size_kib * 1024"
    using sz by (simp add: c1 BS_def)
  show ?thesis
    using c1 c2 c3 c4 c5
    by (simp only: inode_bitmap_start_def data_bitmap_start_def inode_table_start_def simp_thms)
qed

text \<open>The layout of the smallest image, 180 KiB with 128 inodes.\<close>

theorem layout_planner_witness:
  "unat (total_blocks 180) = 45 \<and> unat (inode_table_blocks 128) = 4
   \<and> unat (data_region_start 128) = 7 \<and> unat (data_region_blocks 180 128) = 38"
  using layout_planner[of 180 128] by (simp add: ceiling_divide_eq_div)

text \<open>
  Claim C10. Once the command line has passed the validation of \<^verbatim>\<open>main\<close>, the two layout
  checks cannot fail: there are at least 45 blocks, the data region starts at block 19 at
  the latest and before the last block, so it is never empty, and the builder creates an
  image.
\<close>

theorem layout_errors_unreachable:
  assumes "180 \<le> size_kib" "size_kib \<le> 4096" "size_kib mod 4 = 0"
    and "128 \<le> inode_count" "inode_count \<le> 512"
  shows "45 \<le> unat (total_blocks size_kib)
    \<and> unat (data_region_start inode_count) = 3 + (nat inode_count * 128 + 4095) div 4096
    \<and> unat (data_region_start inode_count) \<le> 19
    \<and> data_region_start inode_count < total_blocks size_kib
    \<and> 0 < unat (data_region_blocks size_kib inode_count)
    \<and> mkfs_builder_main (Some p) size_kib inode_count now stack \<noteq> BuilderFail ImageTooSmall 2
    \<and> mkfs_builder_main (Some p) size_kib inode_count now stack \<noteq> BuilderFail InvalidLayout 2
    \<and> (\<exists>file. mkfs_builder_main (Some p) size_kib inode_count now stack = Created file)"
proof -
  note v = assms(1,2,4,5)
  have b: "0 \<le> inode_count"
    using assms by simp
  have c1: "45 \<le> unat (total_blocks size_kib)"
    by (rule layout_bounds(1)[OF v])
  have c2: "unat (data_region_start inode_count) = 3 + (nat inode_count * 128 + 4095) div 4096"
    by (simp add: unat_data_region_start[OF b assms(5)] unat_inode_table_blocks[OF b assms(5)])
  have c3: "unat (data_region_start inode_count) \<le> 19"
    by (rule layout_bounds(2)[OF v])
  have c4: "data_region_start inode_count < total_blocks size_kib"
    by (rule layout_bounds(3)[OF v])
  have c5: "0 < unat (data_region_blocks size_kib inode_count)"
    using c1 c3 by (simp add: unat_data_region_blocks[OF v])
  have n1: "\<not> total_blocks size_kib < 1 + 1 + 1 + 1"
    using c1 by (simp add: word_less_nat_alt)
  have n2: "\<not> total_blocks size_kib \<le> data_region_start inode_count"
    using c4 by simp
  have run: "\<exists>file. mkfs_builder_main (Some p) size_kib inode_count now stack = Created file"
    using assms n1 n2 unfolding mkfs_builder_main_def Let_def by simp
  then have c6: "mkfs_builder_main (Some p) size_kib inode_count now stack \<noteq> BuilderFail ImageTooSmall 2"
    and c7: "mkfs_builder_main (Some p) size_kib inode_count now stack \<noteq> BuilderFail InvalidLayout 2"
    by auto
  show ?thesis
    using c1 c2 c3 c4 c5 c6 c7 run by (simp only: simp_thms)
qed

text \<open>The largest inode table, 512 inodes, in the smallest image.\<close>

theorem layout_errors_unreachable_witness:
  "45 \<le> unat (total_blocks 180) \<and> unat (data_region_start 512) = 19
   \<and> data_region_start 512 < total_blocks 180
   \<and> mkfs_builder_main (Some []) 180 512 0 [] \<noteq> BuilderFail InvalidLayout 2"
  using layout_errors_unreachable[of 180 512 "[]" 0 "[]"] by simp

section \<open>Buffers: reading after writing\<close>

lemma length_write_bytes [simp]: "length (write_bytes buf off bs) = length buf"
  by (simp add: write_bytes_def)

lemma nth_write_bytes:
  "write_bytes buf off bs ! a =
     (if off + length bs \<le> length buf \<and> off \<le> a \<and> a < off + length bs
      then bs ! (a - off) else buf ! a)"
  by (auto simp: write_bytes_def nth_append)

lemma length_le16 [simp]: "length (le16 w) = 2"
  by (simp add: le16_def)

lemma length_le32 [simp]: "length (le32 w) = 4"
  by (simp add: le32_def)

lemma length_le64 [simp]: "length (le64 w) = 8"
  by (simp add: le64_def)

lemma length_read_bytes: "length (read_bytes buf off n) = min n (length buf - off)"
  by (simp add: read_bytes_def)

lemma nth_read_bytes: "i < n \<Longrightarrow> off + i < length buf \<Longrightarrow> read_bytes buf off n ! i = buf ! (off + i)"
  by (simp add: read_bytes_def)

lemma bit_byte0:
  "bit (ucast (ucast (w::'a::len word) :: u8) :: 'a word) n \<longleftrightarrow> n < 8 \<and> bit w n"
  by (auto simp: bit_simps dest: bit_imp_le_length)

lemma bit_byte:
  "bit (push_bit k (ucast (ucast (drop_bit k (w::'a::len word)) :: u8)) :: 'a word) n
     \<longleftrightarrow> k \<le> n \<and> n < k + 8 \<and> bit w n"
  by (auto simp: bit_simps dest: bit_imp_le_length)

lemma le16_rd: "ucast (ucast (w::u16) :: u8) OR push_bit 8 (ucast (ucast (drop_bit 8 w) :: u8)) = w"
proof (rule bit_word_eqI)
  fix n assume "n < LENGTH(16)"
  then show "bit (ucast (ucast w :: u8) OR push_bit 8 (ucast (ucast (drop_bit 8 w) :: u8)) :: u16) n = bit w n"
    unfolding bit_or_iff bit_byte bit_byte0 by (cases "bit w n") auto
qed

lemma le32_rd:
  "ucast (ucast (w::u32) :: u8) OR push_bit 8 (ucast (ucast (drop_bit 8 w) :: u8))
   OR push_bit 16 (ucast (ucast (drop_bit 16 w) :: u8))
   OR push_bit 24 (ucast (ucast (drop_bit 24 w) :: u8)) = w" (is "?l = w")
proof (rule bit_word_eqI)
  fix n assume "n < LENGTH(32)"
  then show "bit ?l n = bit w n"
    unfolding bit_or_iff bit_byte bit_byte0 by (cases "bit w n") auto
qed

lemma le64_rd:
  "ucast (ucast (w::u64) :: u8) OR push_bit 8 (ucast (ucast (drop_bit 8 w) :: u8))
   OR push_bit 16 (ucast (ucast (drop_bit 16 w) :: u8))
   OR push_bit 24 (ucast (ucast (drop_bit 24 w) :: u8))
   OR push_bit 32 (ucast (ucast (drop_bit 32 w) :: u8))
   OR push_bit 40 (ucast (ucast (drop_bit 40 w) :: u8))
   OR push_bit 48 (ucast (ucast (drop_bit 48 w) :: u8))
   OR push_bit 56 (ucast (ucast (drop_bit 56 w) :: u8)) = w" (is "?l = w")
proof (rule bit_word_eqI)
  fix n assume "n < LENGTH(64)"
  then show "bit ?l n = bit w n"
    unfolding bit_or_iff bit_byte bit_byte0 by (cases "bit w n") auto
qed

lemma rd16_le16: "rd16 (le16 w) 0 = w"
  by (simp add: rd16_def le16_def le16_rd)

lemma rd32_le32: "rd32 (le32 w) 0 = w"
  by (simp add: rd32_def le32_def le32_rd)

lemma rd64_le64: "rd64 (le64 w) 0 = w"
  by (simp add: rd64_def le64_def le64_rd)


lemma rd8_write_bytes:
  "rd8 (write_bytes buf off bs) a =
     (if off + length bs \<le> length buf \<and> off \<le> a \<and> a < off + length bs
      then bs ! (a - off) else rd8 buf a)"
  by (simp add: rd8_def nth_write_bytes)

lemma nth_write_bytes_other:
  "k < off \<or> off + length bs \<le> k \<Longrightarrow> write_bytes buf off bs ! k = buf ! k"
  by (auto simp: nth_write_bytes)

lemma rd16_write_bytes_other:
  "a + 2 \<le> off \<or> off + length bs \<le> a \<Longrightarrow> rd16 (write_bytes buf off bs) a = rd16 buf a"
  unfolding rd16_def by (subst nth_write_bytes_other, fastforce)+ simp

lemma rd32_write_bytes_other:
  "a + 4 \<le> off \<or> off + length bs \<le> a \<Longrightarrow> rd32 (write_bytes buf off bs) a = rd32 buf a"
  unfolding rd32_def by (subst nth_write_bytes_other, fastforce)+ simp

lemma rd64_write_bytes_other:
  "a + 8 \<le> off \<or> off + length bs \<le> a \<Longrightarrow> rd64 (write_bytes buf off bs) a = rd64 buf a"
  unfolding rd64_def by (subst nth_write_bytes_other, fastforce)+ simp

lemma rd16_wr16: "a + 2 \<le> length buf \<Longrightarrow> rd16 (wr16 buf a w) a = w"
  by (simp add: rd16_def wr16_def nth_write_bytes le16_def le16_rd)

lemma rd32_wr32: "a + 4 \<le> length buf \<Longrightarrow> rd32 (wr32 buf a w) a = w"
  by (simp add: rd32_def wr32_def nth_write_bytes le32_def le32_rd)

lemma rd64_wr64: "a + 8 \<le> length buf \<Longrightarrow> rd64 (wr64 buf a w) a = w"
  by (simp add: rd64_def wr64_def nth_write_bytes le64_def le64_rd)

lemma write_bytes_twice:
  "length bs = length bs' \<Longrightarrow> write_bytes (write_bytes buf off bs) off bs' = write_bytes buf off bs'"
  by (simp add: write_bytes_def)

lemma read_bytes_write_bytes_other:
  "off' + n \<le> off \<or> off + length bs \<le> off' \<Longrightarrow>
     read_bytes (write_bytes buf off bs) off' n = read_bytes buf off' n"
  by (rule nth_equalityI) (auto simp: read_bytes_def nth_write_bytes)

lemma read_bytes_write_bytes_same:
  "off + length bs \<le> length buf \<Longrightarrow> read_bytes (write_bytes buf off bs) off (length bs) = bs"
  by (simp add: read_bytes_def write_bytes_def)

lemma read_bytes_prefix:
  "m \<le> n \<Longrightarrow> read_bytes (read_bytes buf off n) 0 m = read_bytes buf off m"
  by (simp add: read_bytes_def min_def)

lemma read_bytes_split:
  "read_bytes buf off (m + n) = read_bytes buf off m @ read_bytes buf (off + m) n"
  by (simp add: read_bytes_def take_add add.commute)

lemma length_wr [simp]:
  "length (wr16 buf a w16) = length buf" "length (wr32 buf a w32) = length buf"
  "length (wr64 buf a w64) = length buf"
  by (simp_all add: wr16_def wr32_def wr64_def)

lemma replicate8: "replicate 8 x = [x, x, x, x, x, x, x, x]"
  by (simp add: eval_nat_numeral)

lemma le64_0: "le64 0 = replicate 8 0"
  by (simp add: le64_def replicate8)

lemma inode_crc_finalize_builder_eq:
  assumes "p + INODE_SIZE \<le> length mem"
  shows "inode_crc_finalize_builder mem p =
         wr64 mem (p + off_i_inode_crc) (ucast (crc32 (read_bytes mem p 120)))"
proof -
  have "read_bytes (write_bytes (read_bytes mem p INODE_SIZE) 120 (replicate 8 0)) 0 120
        = read_bytes (read_bytes mem p INODE_SIZE) 0 120"
    by (rule read_bytes_write_bytes_other) simp
  also have "\<dots> = read_bytes mem p 120"
    by (rule read_bytes_prefix) (simp add: INODE_SIZE_def)
  finally show ?thesis
    by (simp add: inode_crc_finalize_builder_def Let_def)
qed

lemma inode_crc_finalize_adder_eq:
  assumes "p + INODE_SIZE \<le> length mem"
  shows "inode_crc_finalize_adder mem p =
         wr64 mem (p + off_i_inode_crc) (ucast (crc32 (read_bytes mem p 120 @ replicate 8 0)))"
proof -
  let ?m0 = "wr64 mem (p + off_i_inode_crc) 0"
  have le: "p + 120 + 8 \<le> length mem"
    using assms by (simp add: INODE_SIZE_def)
  have "read_bytes ?m0 p INODE_SIZE = read_bytes ?m0 p 120 @ read_bytes ?m0 (p + 120) 8"
    unfolding INODE_SIZE_def using read_bytes_split[of ?m0 p 120 8] by simp
  moreover have "read_bytes ?m0 p 120 = read_bytes mem p 120"
    unfolding wr64_def by (rule read_bytes_write_bytes_other) (simp add: off_i_inode_crc_def)
  moreover have "read_bytes ?m0 (p + 120) 8 = replicate 8 0"
    unfolding wr64_def off_i_inode_crc_def le64_0
    using read_bytes_write_bytes_same[of "p + 120" "replicate 8 0" mem] le
    by simp
  ultimately have "read_bytes ?m0 p INODE_SIZE = read_bytes mem p 120 @ replicate 8 0"
    by simp
  then show ?thesis
    unfolding inode_crc_finalize_adder_def Let_def crc32_finalize_def crc32_def
    by (simp add: wr64_def write_bytes_twice)
qed

section \<open>The checksum routines\<close>

subsection \<open>Sizes of the structs\<close>

lemma length_concat_le32: "length (concat (map (\<lambda>k. le32 (f k)) ks)) = 4 * length ks"
  by (induction ks) simp_all

lemma length_inode_bytes [simp]: "length (inode_bytes ino) = 128"
  by (simp add: inode_bytes_def length_concat_le32 DIRECT_MAX_def)

lemma length_superblock_bytes [simp]: "length (superblock_bytes sb) = 116"
  by (simp add: superblock_bytes_def)

lemma length_dirent_bytes [simp]: "length (dirent_bytes de) = 64"
  by (simp add: dirent_bytes_def)

lemma length_dirent_checksum_finalize [simp]:
  "length (dirent_checksum_finalize mem p) = length mem"
  by (simp add: dirent_checksum_finalize_def Let_def)

subsection \<open>The dirent checksum reads only the first 63 bytes\<close>

lemma foldl_xor_cong:
  assumes "\<And>i. i \<in> set is \<Longrightarrow> a ! (p + i) = b ! (p + i)"
  shows "foldl (\<lambda>x i. x XOR a ! (p + i)) (x0 :: u8) is = foldl (\<lambda>x i. x XOR b ! (p + i)) x0 is"
  using assms by (induction "is" arbitrary: x0) simp_all

lemma dirent_checksum_finalize_update:
  "dirent_checksum_finalize (mem[p + off_de_checksum := v]) p = dirent_checksum_finalize mem p"
proof -
  have "foldl (\<lambda>x i. x XOR mem[p + off_de_checksum := v] ! (p + i)) 0 [0..<63]
        = foldl (\<lambda>x i. x XOR mem ! (p + i)) 0 [0..<63]"
    by (rule foldl_xor_cong) (simp add: off_de_checksum_def)
  then show ?thesis
    by (simp add: dirent_checksum_finalize_def Let_def)
qed

lemma dirent_checksum_finalize_idem:
  "dirent_checksum_finalize (dirent_checksum_finalize mem p) p = dirent_checksum_finalize mem p"
proof -
  obtain v where "dirent_checksum_finalize mem p = mem[p + off_de_checksum := v]"
    by (simp add: dirent_checksum_finalize_def Let_def)
  then show ?thesis
    by (simp add: dirent_checksum_finalize_update)
qed

subsection \<open>Round trip and idempotence\<close>

lemma wr64_twice: "wr64 (wr64 mem a v) a w = wr64 mem a w"
  by (simp add: wr64_def write_bytes_twice)

lemma wr32_twice: "wr32 (wr32 mem a v) a w = wr32 mem a w"
  by (simp add: wr32_def write_bytes_twice)

lemma read_bytes_wr64_other:
  "off' + n \<le> a \<or> a + 8 \<le> off' \<Longrightarrow> read_bytes (wr64 buf a w) off' n = read_bytes buf off' n"
  unfolding wr64_def by (rule read_bytes_write_bytes_other) simp

lemma inode_crc_finalize_builder_wr:
  assumes "p + INODE_SIZE \<le> length mem"
  shows "inode_crc_finalize_builder (wr64 mem (p + off_i_inode_crc) v) p = inode_crc_finalize_builder mem p"
  using assms
  by (simp add: inode_crc_finalize_builder_eq wr64_twice read_bytes_wr64_other off_i_inode_crc_def)

lemma inode_crc_finalize_adder_wr:
  assumes "p + INODE_SIZE \<le> length mem"
  shows "inode_crc_finalize_adder (wr64 mem (p + off_i_inode_crc) v) p = inode_crc_finalize_adder mem p"
  using assms
  by (simp add: inode_crc_finalize_adder_eq wr64_twice read_bytes_wr64_other off_i_inode_crc_def)

lemma inode_crc_finalize_builder_idem:
  assumes "p + INODE_SIZE \<le> length mem"
  shows "inode_crc_finalize_builder (inode_crc_finalize_builder mem p) p = inode_crc_finalize_builder mem p"
proof -
  obtain v where "inode_crc_finalize_builder mem p = wr64 mem (p + off_i_inode_crc) v"
    using inode_crc_finalize_builder_eq[OF assms] by simp
  then show ?thesis
    by (simp add: inode_crc_finalize_builder_wr[OF assms])
qed

lemma inode_crc_finalize_adder_idem:
  assumes "p + INODE_SIZE \<le> length mem"
  shows "inode_crc_finalize_adder (inode_crc_finalize_adder mem p) p = inode_crc_finalize_adder mem p"
proof -
  obtain v where "inode_crc_finalize_adder mem p = wr64 mem (p + off_i_inode_crc) v"
    using inode_crc_finalize_adder_eq[OF assms] by simp
  then show ?thesis
    by (simp add: inode_crc_finalize_adder_wr[OF assms])
qed

lemma superblock_crc_finalize_builder_wr:
  "superblock_crc_finalize_builder (wr32 mem (p + off_sb_checksum) v) p = superblock_crc_finalize_builder mem p"
  by (simp add: superblock_crc_finalize_builder_def wr32_twice)

lemma superblock_crc_finalize_adder_wr:
  "superblock_crc_finalize_adder (wr32 mem (p + off_sb_checksum) v) p = superblock_crc_finalize_adder mem p"
  by (simp add: superblock_crc_finalize_adder_def wr32_twice)

lemma superblock_crc_finalize_builder_idem:
  "superblock_crc_finalize_builder (superblock_crc_finalize_builder mem p) p = superblock_crc_finalize_builder mem p"
proof -
  obtain v where "superblock_crc_finalize_builder mem p = wr32 mem (p + off_sb_checksum) v"
    by (simp add: superblock_crc_finalize_builder_def Let_def wr32_twice)
  then show ?thesis
    by (simp add: superblock_crc_finalize_builder_wr)
qed

lemma superblock_crc_finalize_adder_idem:
  "superblock_crc_finalize_adder (superblock_crc_finalize_adder mem p) p = superblock_crc_finalize_adder mem p"
proof -
  obtain v where "superblock_crc_finalize_adder mem p = wr32 mem (p + off_sb_checksum) v"
    by (simp add: superblock_crc_finalize_adder_def Let_def wr32_twice)
  then show ?thesis
    by (simp add: superblock_crc_finalize_adder_wr)
qed


subsection \<open>One more byte changes the CRC state injectively\<close>

lemma xor_left_cancel_word: "(a :: 'a::len word) XOR b = a XOR c \<Longrightarrow> b = c"
proof -
  assume "a XOR b = a XOR c"
  then have "a XOR (a XOR b) = a XOR (a XOR c)"
    by simp
  then show "b = c"
    by (simp add: xor.assoc [symmetric])
qed

lemma xor_right_cancel_word: "(b :: 'a::len word) XOR a = c XOR a \<Longrightarrow> b = c"
  using xor_left_cancel_word[of a b c] by (simp add: xor.commute)

lemma and_1_bit0: "(x AND 1 \<noteq> 0) = bit (x::u32) 0"
  by (simp add: and_one_eq bit_0 mod_2_eq_odd)

lemma bit31_crc32_shift: "bit (crc32_shift x) 31 = bit x 0"
proof -
  have "\<not> bit (drop_bit 1 x) 31"
    by (auto simp: bit_simps dest: bit_imp_le_length)
  moreover have "bit (0xEDB88320 :: u32) 31"
    by simp
  ultimately show ?thesis
    by (simp add: crc32_shift_def and_1_bit0 bit_xor_iff)
qed

lemma inj_crc32_shift: "crc32_shift a = crc32_shift b \<Longrightarrow> a = b"
proof -
  assume eq: "crc32_shift a = crc32_shift b"
  then have b0: "bit a 0 = bit b 0"
    using bit31_crc32_shift[of a] bit31_crc32_shift[of b] by simp
  have d: "drop_bit 1 a = drop_bit 1 b"
  proof (cases "bit a 0")
    case True
    with b0 eq have "0xEDB88320 XOR drop_bit 1 a = 0xEDB88320 XOR drop_bit 1 b"
      by (simp add: crc32_shift_def and_1_bit0)
    then show ?thesis
      by (rule xor_left_cancel_word)
  next
    case False
    with b0 eq show ?thesis
      by (simp add: crc32_shift_def and_1_bit0)
  qed
  show "a = b"
  proof (rule bit_word_eqI)
    fix n
    show "bit a n = bit b n"
    proof (cases n)
      case 0
      with b0 show ?thesis by simp
    next
      case (Suc m)
      have "bit (drop_bit 1 a) m = bit (drop_bit 1 b) m"
        using d by simp
      with Suc show ?thesis
        by (simp add: bit_drop_bit_eq)
    qed
  qed
qed

lemma inj_crc32_shift_pow: "(crc32_shift ^^ k) a = (crc32_shift ^^ k) b \<Longrightarrow> a = b"
  by (induction k) (auto dest: inj_crc32_shift)

lemma CRC32_TAB_nth: "i < 256 \<Longrightarrow> CRC32_TAB ! i = (crc32_shift ^^ 8) (of_nat i)"
  unfolding CRC32_TAB_def by (subst nth_map) simp_all

lemma unat_and_ff: "unat ((w :: u32) AND 0xFF) < 256"
proof -
  have "w AND 0xFF \<le> 0xFF" by (rule word_and_le1)
  then show ?thesis by (simp add: word_le_nat_alt)
qed

lemma crc32_step_eq:
  "crc32_step c b = (crc32_shift ^^ 8) ((c XOR ucast b) AND 0xFF) XOR drop_bit 8 c"
  by (simp add: crc32_step_def CRC32_TAB_nth unat_and_ff)

lemma crc32_step_inj_byte:
  assumes "crc32_step c b = crc32_step c b'"
  shows "b = b'"
proof -
  have "(crc32_shift ^^ 8) ((c XOR ucast b) AND 0xFF) = (crc32_shift ^^ 8) ((c XOR ucast b') AND 0xFF)"
    using assms unfolding crc32_step_eq by (rule xor_right_cancel_word)
  then have e: "(c XOR ucast b) AND 0xFF = (c XOR ucast b') AND 0xFF"
    by (rule inj_crc32_shift_pow)
  have m: "(0xFF :: u32) = mask 8"
    by (simp add: mask_eq_exp_minus_1)
  show ?thesis
  proof (rule bit_word_eqI)
    fix n assume n: "n < LENGTH(8)"
    have "bit ((c XOR ucast b) AND mask 8) n = bit ((c XOR ucast b') AND mask 8) n"
      using e unfolding m by simp
    with n show "bit b n = bit b' n"
      by (auto simp: bit_simps)
  qed
qed

lemma crc32_snoc: "crc32 (xs @ [b]) = crc32_step (crc32_update 0xFFFFFFFF xs) b XOR 0xFFFFFFFF"
  by (simp add: crc32_def crc32_update_def)

lemma crc32_snoc_inj: "crc32 (xs @ [b]) = crc32 (xs @ [b']) \<Longrightarrow> b = b'"
  unfolding crc32_snoc by (rule crc32_step_inj_byte, rule xor_right_cancel_word)


lemma crc32_finalize_eq: "crc32_finalize buf = crc32 buf"
  by (simp add: crc32_finalize_def crc32_def)

lemma funpow8: "(f ^^ 8) x = f (f (f (f (f (f (f (f x)))))))"
  by (simp add: eval_nat_numeral)

lemma le32_0: "le32 0 = replicate 4 0"
  by (simp add: le32_def numeral_eq_Suc)

lemma concat_map_replicate: "concat (map (\<lambda>k. replicate m x) ks) = replicate (m * length ks) x"
  by (induction ks) (simp_all add: replicate_add)

lemma direct_zero_bytes:
  "concat (map (\<lambda>k. le32 (replicate 12 0 ! k)) [0..<12]) = replicate 48 0"
proof -
  have m: "map (\<lambda>k. le32 (replicate 12 0 ! k)) [0..<12] = map (\<lambda>k. replicate 4 0) [0..<12]"
    by (rule map_cong) (simp_all add: le32_0)
  show ?thesis
    unfolding m concat_map_replicate by simp
qed

lemma file_inode_bytes_empty:
  "inode_bytes (file_inode 0 0 (replicate 12 0)) =
     [0, 0x80, 1, 0] @ replicate 100 0 @ [14, 0, 0, 0] @ replicate 20 0"
proof -
  have a: "le16 0x8000 = [0, 0x80]" "le16 1 = [1, 0]" "le32 14 = [14, 0, 0, 0]"
    by (simp_all add: le16_def le32_def)
  have b: "replicate 100 (0::u8) = replicate 4 0 @ replicate 4 0 @ replicate 8 0 @ replicate 8 0
     @ replicate 8 0 @ replicate 8 0 @ replicate 48 0 @ replicate 4 0 @ replicate 4 0 @ replicate 4 0"
    "replicate 20 (0::u8) = replicate 4 0 @ replicate 8 0 @ replicate 8 0"
    by (simp_all add: replicate_add [symmetric])
  show ?thesis
    unfolding b by (simp add: inode_bytes_def file_inode_def a le32_0 le64_0 DIRECT_MAX_def direct_zero_bytes)
qed


lemma foldl_replicate_unroll:
  "foldl f c (replicate n x) = (if n = 0 then c else foldl f (f c x) (replicate (n - 1) x))"
  by (cases n) simp_all

lemma crc32_shift_numeral:
  "crc32_shift (numeral k) =
     (if numeral k AND 1 \<noteq> (0::u32) then 0xEDB88320 XOR drop_bit 1 (numeral k) else drop_bit 1 (numeral k))"
  "crc32_shift 0 = 0" "crc32_shift 1 = 0xEDB88320"
  by (simp_all add: crc32_shift_def)

lemma crc_state_120:
  "crc32_update 0xFFFFFFFF ([0, 0x80, 1, 0] @ replicate 100 0 @ [14, 0, 0, 0] @ replicate 12 0) = 0x20d5124a"
  by (simp add: crc32_update_def crc32_step_eq funpow8 crc32_shift_numeral foldl_replicate_unroll)


lemma inode_crc_builder_stored:
  assumes "p + INODE_SIZE \<le> length mem"
  shows "rd64 (inode_crc_finalize_builder mem p) (p + off_i_inode_crc)
           = ucast (crc32 (read_bytes mem p 120))"
    and "drop_bit 32 (rd64 (inode_crc_finalize_builder mem p) (p + off_i_inode_crc)) = 0"
proof -
  have "p + off_i_inode_crc + 8 \<le> length mem"
    using assms by (simp add: INODE_SIZE_def off_i_inode_crc_def)
  then show a: "rd64 (inode_crc_finalize_builder mem p) (p + off_i_inode_crc)
           = ucast (crc32 (read_bytes mem p 120))"
    by (simp add: inode_crc_finalize_builder_eq[OF assms] rd64_wr64)
  show "drop_bit 32 (rd64 (inode_crc_finalize_builder mem p) (p + off_i_inode_crc)) = 0"
    unfolding a by (rule bit_word_eqI) (auto simp: bit_simps dest: bit_imp_le_length)
qed

lemma inode_crc_adder_stored:
  assumes "p + INODE_SIZE \<le> length mem"
  shows "rd64 (inode_crc_finalize_adder mem p) (p + off_i_inode_crc)
           = ucast (crc32 (read_bytes mem p 120 @ replicate 8 0))"
proof -
  have "p + off_i_inode_crc + 8 \<le> length mem"
    using assms by (simp add: INODE_SIZE_def off_i_inode_crc_def)
  then show ?thesis
    by (simp add: inode_crc_finalize_adder_eq[OF assms] rd64_wr64)
qed

text \<open>
  Claim C3, at the inode the adder writes for an empty file at time 0. The builder's routine
  stores the CRC-32 of the first 120 bytes, \<open>0xDF2AEDB5\<close>; the adder's routine hashes all
  128 bytes of the struct and stores \<open>0x34D10EA5\<close>.
\<close>

theorem inode_crc_adder_hashes_128:
  "rd64 (inode_crc_finalize_adder (inode_bytes (file_inode 0 0 (replicate 12 0))) 0) off_i_inode_crc
     = 0x34D10EA5
   \<and> rd64 (inode_crc_finalize_builder (inode_bytes (file_inode 0 0 (replicate 12 0))) 0) off_i_inode_crc
     = 0xDF2AEDB5
   \<and> crc32 (read_bytes (inode_bytes (file_inode 0 0 (replicate 12 0))) 0 120) = 0xDF2AEDB5"
proof -
  let ?mem = "inode_bytes (file_inode 0 0 (replicate 12 0))"
  let ?data = "[0, 0x80, 1, 0] @ replicate 100 0 @ [14, 0, 0, 0] @ replicate 12 (0::u8)"
  have len: "0 + INODE_SIZE \<le> length ?mem"
    by (simp add: INODE_SIZE_def)
  have rd: "read_bytes ?mem 0 120 = ?data"
    unfolding file_inode_bytes_empty by (simp add: read_bytes_def)
  have c120: "crc32 (read_bytes ?mem 0 120) = 0xDF2AEDB5"
    unfolding rd crc32_def crc_state_120 by simp
  have "crc32_update 0xFFFFFFFF (?data @ replicate 8 0)
          = foldl crc32_step 0x20D5124A (replicate 8 0)"
    using crc_state_120 by (simp only: crc32_update_def foldl_append)
  also have "\<dots> = 0xCB2EF15A"
    by (simp add: crc32_step_eq funpow8 crc32_shift_numeral foldl_replicate_unroll)
  finally have c128: "crc32 (read_bytes ?mem 0 120 @ replicate 8 0) = 0x34D10EA5"
    unfolding rd crc32_def by simp
  have a: "rd64 (inode_crc_finalize_adder ?mem 0) off_i_inode_crc = ucast (0x34D10EA5 :: u32)"
    using inode_crc_adder_stored[OF len] unfolding c128 by simp
  have b: "rd64 (inode_crc_finalize_builder ?mem 0) off_i_inode_crc = ucast (0xDF2AEDB5 :: u32)"
    using inode_crc_builder_stored(1)[OF len] unfolding c120 by simp
  show ?thesis
    unfolding a b c120 by simp
qed

subsection \<open>The two superblock routines\<close>

lemma wr32_zero_on_zero:
  assumes "\<And>i. i < 4 \<Longrightarrow> mem ! (a + i) = 0"
  shows "wr32 mem a 0 = mem"
proof (rule nth_equalityI)
  show "length (wr32 mem a 0) = length mem"
    by simp
next
  fix i assume "i < length (wr32 mem a 0)"
  show "wr32 mem a 0 ! i = mem ! i"
  proof (cases "a \<le> i \<and> i < a + 4")
    case True
    then have k: "i - a < 4"
      by arith
    then have "mem ! (a + (i - a)) = 0"
      by (rule assms)
    with True k show ?thesis
      by (simp add: wr32_def nth_write_bytes le32_0)
  next
    case False
    then show ?thesis
      by (auto simp: wr32_def nth_write_bytes)
  qed
qed

text \<open>
  Claim C2. The builder's routine hashes the 4092 bytes behind the pointer, the adder's the
  116 bytes of the struct. Two blocks that agree on their first 4091 bytes and differ in
  the next one get the same checksum from the adder's routine and different ones from the
  builder's, so on one of them the two routines store different values: they are
  different functions.
\<close>

theorem superblock_checksums_incompatible:
  "(\<exists>mem. length mem = BS
      \<and> rd32 (superblock_crc_finalize_builder mem 0) off_sb_checksum
        \<noteq> rd32 (superblock_crc_finalize_adder mem 0) off_sb_checksum)
   \<and> superblock_crc_finalize_builder \<noteq> superblock_crc_finalize_adder"
proof -
  define m :: "u8 \<Rightarrow> u8 list" where "m b = replicate 4091 0 @ [b] @ replicate 4 0" for b
  have len: "length (m b) = BS" for b
    by (simp add: m_def BS_def)
  have z: "wr32 (m b) 112 0 = m b" for b
    by (rule wr32_zero_on_zero) (simp add: m_def nth_append)
  have rb: "read_bytes (m b) 0 4092 = replicate 4091 0 @ [b]" for b
    by (simp add: m_def read_bytes_def)
  have ra: "read_bytes (m b) 0 116 = replicate 116 0" for b
    by (simp add: m_def read_bytes_def)
  have sb: "rd32 (superblock_crc_finalize_builder (m b) 0) off_sb_checksum
              = crc32 (replicate 4091 0 @ [b])" for b
    using rd32_wr32[of off_sb_checksum "m b"]
    by (simp add: superblock_crc_finalize_builder_def Let_def z rb len off_sb_checksum_def BS_def)
  have sa: "rd32 (superblock_crc_finalize_adder (m b) 0) off_sb_checksum
              = crc32 (replicate 116 0)" for b
    using rd32_wr32[of off_sb_checksum "m b"]
    by (simp add: superblock_crc_finalize_adder_def Let_def z ra len off_sb_checksum_def BS_def
        crc32_finalize_eq sizeof_superblock_def)
  have "crc32 (replicate 4091 0 @ [0]) \<noteq> crc32 (replicate 4091 0 @ [1])"
    using crc32_snoc_inj[of "replicate 4091 0" 0 1] by auto
  then have "crc32 (replicate 4091 0 @ [0]) \<noteq> crc32 (replicate 116 0)
      \<or> crc32 (replicate 4091 0 @ [1]) \<noteq> crc32 (replicate 116 0)"
    by auto
  then have "\<exists>b. rd32 (superblock_crc_finalize_builder (m b) 0) off_sb_checksum
      \<noteq> rd32 (superblock_crc_finalize_adder (m b) 0) off_sb_checksum"
    unfolding sb sa by blast
  then obtain b where b: "rd32 (superblock_crc_finalize_builder (m b) 0) off_sb_checksum
      \<noteq> rd32 (superblock_crc_finalize_adder (m b) 0) off_sb_checksum" ..
  then have "superblock_crc_finalize_builder \<noteq> superblock_crc_finalize_adder"
    by auto
  with b len show ?thesis
    by blast
qed

subsection \<open>The image the builder creates\<close>

lemma write_bytes_replicate_0:
  "length bs \<le> n \<Longrightarrow> write_bytes (replicate n x) 0 bs = bs @ replicate (n - length bs) x"
  by (simp add: write_bytes_def)

lemma write_bytes_append_tail:
  "length xs \<le> off \<Longrightarrow> write_bytes (xs @ ys) off bs = xs @ write_bytes ys (off - length xs) bs"
  by (auto simp: write_bytes_def)

lemma bitmap_set_zero_block: "bitmap_set (replicate BS 0) 0 0 = 1 # replicate (BS - 1) 0"
proof -
  have "replicate BS (0::u8) = 0 # replicate (BS - 1) 0"
    by (simp add: BS_def replicate_Suc [symmetric] del: replicate_Suc)
  then show ?thesis
    by (simp add: bitmap_set_def)
qed

lemma builder_created:
  assumes "180 \<le> size_kib" "size_kib \<le> 4096" "size_kib mod 4 = 0"
    and "128 \<le> inode_count" "inode_count \<le> 512"
  shows "mkfs_builder_main (Some p) size_kib inode_count now stack = Created (
      write_bytes (replicate BS 0) 0
        (read_bytes (superblock_crc_finalize_builder
           (superblock_bytes (builder_superblock size_kib inode_count now) @ stack) 0) 0 sizeof_superblock)
      @ bitmap_set (replicate BS 0) 0 0 @ bitmap_set (replicate BS 0) 0 0
      @ inode_crc_finalize_builder
          (write_bytes (replicate (nat inode_count * INODE_SIZE) 0) 0
             (inode_bytes (root_inode inode_count now))) 0
      @ replicate (unat (inode_table_blocks inode_count) * BS - nat inode_count * INODE_SIZE) 0
      @ write_bytes (write_bytes (replicate (unat (data_region_blocks size_kib inode_count) * BS) 0)
          (0 * sizeof_dirent) dot) (1 * sizeof_dirent) dotdot)"
proof -
  note v = assms(1,2,4,5)
  have n1: "\<not> total_blocks size_kib < 1 + 1 + 1 + 1"
    using layout_bounds(1)[OF v] by (simp add: word_less_nat_alt)
  have n2: "\<not> total_blocks size_kib \<le> data_region_start inode_count"
    using layout_bounds(3)[OF v] by simp
  show ?thesis
    using assms n1 n2 unfolding mkfs_builder_main_def Let_def by simp
qed

lemma superblock_bytes_checksum0:
  "sb_checksum sb = 0 \<Longrightarrow> superblock_bytes sb = take 112 (superblock_bytes sb) @ replicate 4 0"
  by (simp add: superblock_bytes_def le32_0)

lemma builder_sbpad:
  assumes "sb_checksum sb = 0"
  shows "write_bytes (replicate BS 0) 0
           (read_bytes (superblock_crc_finalize_builder (superblock_bytes sb @ stack) 0) 0 sizeof_superblock)
         = take 112 (superblock_bytes sb)
           @ le32 (crc32 (take 4092 (superblock_bytes sb @ stack)))
           @ replicate 3980 0"
proof -
  let ?sbb = "superblock_bytes sb"
  let ?mem = "?sbb @ stack"
  have z: "wr32 ?mem 112 0 = ?mem"
  proof (rule wr32_zero_on_zero)
    fix i :: nat assume "i < 4"
    then have "?mem ! (112 + i) = (take 112 ?sbb @ replicate 4 0) ! (112 + i)"
      unfolding superblock_bytes_checksum0[OF assms, symmetric] by (simp add: nth_append)
    with \<open>i < 4\<close> show "?mem ! (112 + i) = 0"
      by (simp add: nth_append)
  qed
  have w: "wr32 ?mem 112 s = take 112 ?sbb @ le32 s @ stack" for s
    by (simp add: wr32_def write_bytes_def)
  have f: "superblock_crc_finalize_builder ?mem 0 = wr32 ?mem 112 (crc32 (take 4092 ?mem))"
    unfolding superblock_crc_finalize_builder_def Let_def
    by (simp add: off_sb_checksum_def z BS_def read_bytes_def)
  have "read_bytes (superblock_crc_finalize_builder ?mem 0) 0 sizeof_superblock
        = take 112 ?sbb @ le32 (crc32 (take 4092 ?mem))"
    unfolding f w by (simp add: read_bytes_def sizeof_superblock_def)
  then show ?thesis
    by (simp add: write_bytes_replicate_0 BS_def)
qed

lemma builder_itab:
  assumes "128 \<le> n"
  shows "inode_crc_finalize_builder (write_bytes (replicate n 0) 0 (inode_bytes ino)) 0
         = take 120 (inode_bytes ino) @ le64 (ucast (crc32 (take 120 (inode_bytes ino))))
           @ replicate (n - 128) 0"
proof -
  let ?m = "inode_bytes ino @ replicate (n - 128) 0"
  have m: "write_bytes (replicate n 0) 0 (inode_bytes ino) = ?m"
    using assms by (simp add: write_bytes_replicate_0)
  have len: "0 + INODE_SIZE \<le> length ?m"
    by (simp add: INODE_SIZE_def)
  show ?thesis
    unfolding m inode_crc_finalize_builder_eq[OF len]
    by (simp add: wr64_def write_bytes_def off_i_inode_crc_def read_bytes_def)
qed

lemma length_dot [simp]: "length dot = 64" "length dotdot = 64"
  by (simp_all add: dot_def dotdot_def)

lemma builder_data:
  assumes "128 \<le> n"
  shows "write_bytes (write_bytes (replicate n 0) (0 * sizeof_dirent) dot) (1 * sizeof_dirent) dotdot
         = dot @ dotdot @ replicate (n - 128) 0"
  using assms
  by (simp add: sizeof_dirent_def write_bytes_replicate_0 write_bytes_append_tail)


lemma inode_table_fits:
  assumes "128 \<le> inode_count" "inode_count \<le> 512"
  shows "nat inode_count * INODE_SIZE \<le> unat (inode_table_blocks inode_count) * BS"
    and "128 \<le> nat inode_count * INODE_SIZE"
proof -
  have "0 \<le> inode_count"
    using assms by simp
  from unat_inode_table_blocks[OF this assms(2)]
  have "unat (inode_table_blocks inode_count) * 4096 = (nat inode_count * 128 + 4095) div 4096 * 4096"
    by simp
  also have "\<dots> = nat inode_count * 128 + 4095 - (nat inode_count * 128 + 4095) mod 4096"
    by (simp add: minus_mod_eq_div_mult)
  finally show "nat inode_count * INODE_SIZE \<le> unat (inode_table_blocks inode_count) * BS"
    unfolding INODE_SIZE_def BS_def
    using mod_less_divisor[of 4096 "nat inode_count * 128 + 4095"] by linarith
  show "128 \<le> nat inode_count * INODE_SIZE"
    using assms by (simp add: INODE_SIZE_def)
qed

lemma builder_image:
  assumes "180 \<le> size_kib" "size_kib \<le> 4096" "size_kib mod 4 = 0"
    and "128 \<le> inode_count" "inode_count \<le> 512"
  shows "created_image (mkfs_builder_main (Some p) size_kib inode_count now stack) =
     take 112 (superblock_bytes (builder_superblock size_kib inode_count now))
     @ le32 (crc32 (take 4092 (superblock_bytes (builder_superblock size_kib inode_count now) @ stack)))
     @ replicate 3980 0
     @ 1 # replicate 4095 0
     @ 1 # replicate 4095 0
     @ take 120 (inode_bytes (root_inode inode_count now))
     @ le64 (ucast (crc32 (take 120 (inode_bytes (root_inode inode_count now)))))
     @ replicate (unat (inode_table_blocks inode_count) * 4096 - 128) 0
     @ dot @ dotdot
     @ replicate (unat (data_region_blocks size_kib inode_count) * 4096 - 128) 0"
proof -
  note v = assms(1,2,4,5)
  have c: "sb_checksum (builder_superblock size_kib inode_count now) = 0"
    by (simp add: builder_superblock_def)
  have d: "128 \<le> unat (data_region_blocks size_kib inode_count) * BS"
    using layout_bounds(1,2)[OF v] by (simp add: unat_data_region_blocks[OF v] BS_def)
  note t = inode_table_fits[OF assms(4,5)]
  have r: "replicate (nat inode_count * INODE_SIZE - 128) (0::u8)
        @ replicate (unat (inode_table_blocks inode_count) * BS - nat inode_count * INODE_SIZE) 0
      = replicate (unat (inode_table_blocks inode_count) * 4096 - 128) 0"
    using t by (simp add: replicate_add [symmetric] BS_def)
  show ?thesis
    unfolding builder_created[OF assms] created_image.simps builder_sbpad[OF c]
      builder_itab[OF t(2)] builder_data[OF d] bitmap_set_zero_block
    using r by (simp add: BS_def)
qed

lemma rd32_at: "length xs = a \<Longrightarrow> rd32 (xs @ le32 w @ ys) a = w"
  by (simp add: rd32_def nth_append le32_def le32_rd)

lemma wr32_at: "length xs = a \<Longrightarrow> wr32 (xs @ le32 w @ ys) a v = xs @ le32 v @ ys"
  by (simp add: wr32_def write_bytes_def)

text \<open>
  Claim C4, at the smallest image (180 KiB, 128 inodes, time 0) when the last of the 3976
  bytes that follow the local \<^verbatim>\<open>sb\<close> in memory is 1. The image has 184320 bytes, but the
  checksum stored in its superblock is not the CRC-32 of the first 4092 bytes of block 0
  with the checksum field zeroed: \<^verbatim>\<open>superblock_crc_finalize(&sb)\<close> has hashed the bytes
  behind the 116-byte struct, and block 0 holds zeros there.
\<close>

theorem builder_superblock_checksum_invalid:
  "length (created_image (mkfs_builder_main (Some []) 180 128 0 (replicate 3975 0 @ [1]))) = 180 * 1024
   \<and> rd32 (created_image (mkfs_builder_main (Some []) 180 128 0 (replicate 3975 0 @ [1]))) off_sb_checksum
     \<noteq> crc32 (read_bytes
          (wr32 (created_image (mkfs_builder_main (Some []) 180 128 0 (replicate 3975 0 @ [1])))
             off_sb_checksum 0) 0 (BS - 4))"
proof -
  let ?sbb = "superblock_bytes (builder_superblock 180 128 0)"
  obtain rest where f: "created_image (mkfs_builder_main (Some []) 180 128 0 (replicate 3975 0 @ [1]))
      = take 112 ?sbb @ le32 (crc32 (take 4092 (?sbb @ replicate 3975 0 @ [1]))) @ replicate 3980 0 @ rest"
    and lr: "length rest = 45 * 4096 - 4096"
    using builder_image[of 180 128 "[]" 0 "replicate 3975 0 @ [1]"] layout_planner_witness
    by simp
  have c: "sb_checksum (builder_superblock 180 128 0) = 0"
    by (simp add: builder_superblock_def)
  have s: "take 4092 (?sbb @ replicate 3975 0 @ [1]) = (?sbb @ replicate 3975 0) @ [1]"
    by simp
  have "read_bytes (take 112 ?sbb @ le32 0 @ replicate 3980 0 @ rest) 0 4092
        = (take 112 ?sbb @ replicate 4 0) @ replicate 3976 0"
    by (simp add: read_bytes_def le32_0)
  also have "\<dots> = (?sbb @ replicate 3975 0) @ [0]"
    unfolding superblock_bytes_checksum0[OF c, symmetric]
    using replicate_add[of 3975 1 "0::u8"] by simp
  finally have r: "read_bytes (take 112 ?sbb @ le32 0 @ replicate 3980 0 @ rest) 0 4092
        = (?sbb @ replicate 3975 0) @ [0]" .
  have "crc32 ((?sbb @ replicate 3975 0) @ [1]) \<noteq> crc32 ((?sbb @ replicate 3975 0) @ [0])"
    using crc32_snoc_inj[of "?sbb @ replicate 3975 0" 1 0] by auto
  then show ?thesis
    unfolding f s by (simp add: off_sb_checksum_def rd32_at wr32_at r BS_def lr)
qed

subsection \<open>First fit\<close>

lemma bitmap_ffz_Some:
  "bitmap_ffz buf bm bits = Some i \<Longrightarrow>
     i < bits \<and> \<not> bitmap_test buf bm i \<and> (\<forall>j<i. bitmap_test buf bm j)"
  by (auto simp: bitmap_ffz_def find_Some_iff)

lemma bitmap_ffz_SomeI:
  "i < bits \<Longrightarrow> \<not> bitmap_test buf bm i \<Longrightarrow> (\<And>j. j < i \<Longrightarrow> bitmap_test buf bm j) \<Longrightarrow>
     bitmap_ffz buf bm bits = Some i"
  unfolding bitmap_ffz_def find_Some_iff by (rule exI[of _ i]) simp

lemma bitmap_ffz_None: "bitmap_ffz buf bm bits = None \<longleftrightarrow> (\<forall>i<bits. bitmap_test buf bm i)"
  by (auto simp: bitmap_ffz_def find_None_iff)

subsection \<open>What a failed run has done to the buffer\<close>

lemma length_bitmap_set [simp]: "length (bitmap_set buf bm idx) = length buf"
  by (simp add: bitmap_set_def)

lemma bitmap_set_outside:
  "idx < bits \<Longrightarrow> \<not> (bm \<le> a \<and> a < bm + (bits + 7) div 8) \<Longrightarrow> bitmap_set buf bm idx ! a = buf ! a"
proof -
  assume "idx < bits" and o: "\<not> (bm \<le> a \<and> a < bm + (bits + 7) div 8)"
  then have "idx div 8 < (bits + 7) div 8"
    by arith
  with o have "a \<noteq> bm + idx div 8"
    by arith
  then show ?thesis
    by (simp add: bitmap_set_def)
qed

lemma bitmap_set_keeps_bits: "bitmap_set buf bm idx ! a AND buf ! a = buf ! a"
proof (cases "a = bm + idx div 8 \<and> a < length buf")
  case True
  have "(x OR y) AND x = x" for x y :: u8
    by (rule bit_word_eqI) (auto simp: bit_simps)
  with True show ?thesis
    by (simp add: bitmap_set_def)
next
  case False
  then have "bitmap_set buf bm idx ! a = buf ! a"
    by (auto simp: bitmap_set_def list_update_beyond not_less)
  then show ?thesis
    by simp
qed

lemma alloc_blocks_effect:
  assumes "alloc_blocks img data_bm bits drs is direct = Inl img'
           \<or> alloc_blocks img data_bm bits drs is direct = Inr (img', direct')"
  shows "length img' = length img
    \<and> (\<forall>a. \<not> (data_bm \<le> a \<and> a < data_bm + (bits + 7) div 8) \<longrightarrow> img' ! a = img ! a)
    \<and> (\<forall>a. img' ! a AND img ! a = img ! a)"
  using assms
proof (induction "is" arbitrary: img direct)
  case Nil
  then show ?case by simp
next
  case (Cons i "is")
  show ?case
  proof (cases "bitmap_ffz img data_bm bits")
    case None
    with Cons.prems show ?thesis by simp
  next
    case (Some idx)
    then have idx: "idx < bits"
      by (simp add: bitmap_ffz_Some)
    let ?img1 = "bitmap_set img data_bm idx"
    from Cons.prems Some
    have "alloc_blocks ?img1 data_bm bits drs is (direct[i := ucast (drs + of_nat idx)]) = Inl img'
        \<or> alloc_blocks ?img1 data_bm bits drs is (direct[i := ucast (drs + of_nat idx)]) = Inr (img', direct')"
      by simp
    from Cons.IH[OF this]
    have ih: "length img' = length ?img1"
      "\<And>a. \<not> (data_bm \<le> a \<and> a < data_bm + (bits + 7) div 8) \<Longrightarrow> img' ! a = ?img1 ! a"
      "\<And>a. img' ! a AND ?img1 ! a = ?img1 ! a"
      by simp_all
    have k: "img' ! a AND img ! a = img ! a" for a
    proof -
      have "img' ! a AND img ! a = img' ! a AND (?img1 ! a AND img ! a)"
        by (simp add: bitmap_set_keeps_bits)
      also have "\<dots> = (img' ! a AND ?img1 ! a) AND img ! a"
        by (simp add: and.assoc)
      finally show ?thesis
        by (simp add: ih(3) bitmap_set_keeps_bits)
    qed
    show ?thesis
      using ih(1) ih(2) k by (simp add: bitmap_set_outside[OF idx])
  qed
qed

lemma dir_scan_Inl: "dir_scan img dblk base is slot used = Inl e \<Longrightarrow> e = AlreadyExists"
  by (induction "is" arbitrary: slot used) (auto split: if_splits)


lemma adder_failure_cases:
  assumes "mkfs_adder_main img filepath fbuf now = Fail e code buf"
  shows "(e \<in> {EmptyImage, FormatMismatch, NoFreeInode, InodeIndexOOB, FileTooLarge} \<and> buf = img)
    \<or> (e \<in> {NoFreeDataBlocks, RootMissingBlock, AlreadyExists, DirectoryFull}
        \<and> (\<exists>is direct direct'.
             alloc_blocks img (unat (rd64 img off_sb_data_bitmap_start * of_nat BS))
               (unat (rd64 img off_sb_data_region_blocks)) (rd64 img off_sb_data_region_start)
               is direct = Inl buf
           \<or> alloc_blocks img (unat (rd64 img off_sb_data_bitmap_start * of_nat BS))
               (unat (rd64 img off_sb_data_region_blocks)) (rd64 img off_sb_data_region_start)
               is direct = Inr (buf, direct')))"
  using assms unfolding mkfs_adder_main_def Let_def
  by (auto split: if_splits option.splits sum.splits prod.splits dest: dir_scan_Inl)


text \<open>
  Claim C1, as the code has it. A run that fails writes no output file. A failure of steps
  1 to 3 (empty image, format mismatch, no free inode, file too large) leaves the buffer
  as it was loaded. A failure of step 4 or 5 (no free data block, root without a data
  block, duplicate name, directory full) comes after the allocation loop, which is not
  rolled back: the buffer keeps its length, every byte outside the data bitmap is
  unchanged (so no inode-bitmap bit is set, no inode and no directory entry is written
  where the regions are disjoint), and inside the data bitmap bits have only been set.
\<close>

theorem adder_failure_effects:
  assumes "mkfs_adder_main img filepath fbuf now = Fail e code buf"
  shows "written_image (mkfs_adder_main img filepath fbuf now) = []
    \<and> length buf = length img
    \<and> (e \<in> {EmptyImage, FormatMismatch, NoFreeInode, InodeIndexOOB, FileTooLarge} \<longrightarrow> buf = img)
    \<and> (\<forall>a. \<not> (unat (rd64 img off_sb_data_bitmap_start * of_nat BS) \<le> a
              \<and> a < unat (rd64 img off_sb_data_bitmap_start * of_nat BS)
                    + (unat (rd64 img off_sb_data_region_blocks) + 7) div 8)
           \<longrightarrow> buf ! a = img ! a)
    \<and> (\<forall>a. buf ! a AND img ! a = img ! a)"
proof -
  have w: "written_image (mkfs_adder_main img filepath fbuf now) = []"
    using assms by simp
  from adder_failure_cases[OF assms] show ?thesis
  proof
    assume "e \<in> {EmptyImage, FormatMismatch, NoFreeInode, InodeIndexOOB, FileTooLarge} \<and> buf = img"
    with w show ?thesis by simp
  next
    assume a: "e \<in> {NoFreeDataBlocks, RootMissingBlock, AlreadyExists, DirectoryFull}
        \<and> (\<exists>is direct direct'.
             alloc_blocks img (unat (rd64 img off_sb_data_bitmap_start * of_nat BS))
               (unat (rd64 img off_sb_data_region_blocks)) (rd64 img off_sb_data_region_start)
               is direct = Inl buf
           \<or> alloc_blocks img (unat (rd64 img off_sb_data_bitmap_start * of_nat BS))
               (unat (rd64 img off_sb_data_region_blocks)) (rd64 img off_sb_data_region_start)
               is direct = Inr (buf, direct'))"
    then obtain "is" direct direct' where
      "alloc_blocks img (unat (rd64 img off_sb_data_bitmap_start * of_nat BS))
               (unat (rd64 img off_sb_data_region_blocks)) (rd64 img off_sb_data_region_start)
               is direct = Inl buf
           \<or> alloc_blocks img (unat (rd64 img off_sb_data_bitmap_start * of_nat BS))
               (unat (rd64 img off_sb_data_region_blocks)) (rd64 img off_sb_data_region_start)
               is direct = Inr (buf, direct')"
      by blast
    from alloc_blocks_effect[OF this] a w show ?thesis
      by auto
  qed
qed

subsection \<open>The first checks of the adder\<close>

text \<open>
  Claim C5, as the code has it. The adder validates the loaded image first: when its
  block-size field is not 4096 or its magic field is not the format tag, the run fails
  with FormatMismatch, leaves the buffer alone and \<^verbatim>\<open>main\<close> returns 2; when both match,
  the run does not fail with FormatMismatch.
\<close>

theorem format_validation:
  assumes "length img \<noteq> 0"
  shows "(rd32 img off_sb_block_size \<noteq> 4096 \<or> rd32 img off_sb_magic \<noteq> 0x4D565346
          \<longrightarrow> mkfs_adder_main img filepath fbuf now = Fail FormatMismatch 2 img
            \<and> exit_code (mkfs_adder_main img filepath fbuf now) = 2)
    \<and> (rd32 img off_sb_block_size = 4096 \<and> rd32 img off_sb_magic = 0x4D565346
          \<longrightarrow> (\<forall>code buf. mkfs_adder_main img filepath fbuf now \<noteq> Fail FormatMismatch code buf))"
proof -
  have a: "mkfs_adder_main img filepath fbuf now = Fail FormatMismatch 2 img"
    if "rd32 img off_sb_block_size \<noteq> 4096 \<or> rd32 img off_sb_magic \<noteq> 0x4D565346"
    using that assms unfolding mkfs_adder_main_def by (simp add: BS_def)
  have b: "mkfs_adder_main img filepath fbuf now \<noteq> Fail FormatMismatch code buf"
    if "rd32 img off_sb_block_size = 4096 \<and> rd32 img off_sb_magic = 0x4D565346" for code buf
    using that assms unfolding mkfs_adder_main_def Let_def
    by (auto simp: BS_def split: if_splits option.splits sum.splits prod.splits dest: dir_scan_Inl)
  show ?thesis
    using a b by auto
qed

text \<open>A block of zeros is not an image.\<close>

theorem format_validation_witness:
  "mkfs_adder_main (replicate 4096 0) [0x62] [] 0 = Fail FormatMismatch 2 (replicate 4096 0)
   \<and> exit_code (mkfs_adder_main (replicate 4096 0) [0x62] [] 0) = 2"
  using format_validation[of "replicate 4096 0" "[0x62]" "[]" 0]
  by (simp add: rd32_def off_sb_block_size_def)

text \<open>The claim as the specification words it, exit code 1, fails on a file of 4096 zero
  bytes given as the image.\<close>

theorem format_mismatch_exit_code_counterexample:
  "mkfs_adder_main (replicate 4096 0) [0x61] [0x41] 0 = Fail FormatMismatch 2 (replicate 4096 0)
   \<and> exit_code (mkfs_adder_main (replicate 4096 0) [0x61] [0x41] 0) \<noteq> 1"
  by (simp add: mkfs_adder_main_def rd32_def off_sb_block_size_def BS_def)

lemma ceiling_div_4096: "nat \<lceil>real n / 4096\<rceil> = (n + 4095) div 4096"
proof -
  have "\<lceil>real n / 4096\<rceil> = \<lceil>real_of_int (int n) / real_of_int 4096\<rceil>"
    by simp
  also have "\<dots> = - (- int n div 4096)"
    by (rule ceiling_divide_eq_div)
  also have "\<dots> = (int n + 4095) div 4096"
    by linarith
  also have "\<dots> = int ((n + 4095) div 4096)"
    by (simp add: zdiv_int)
  finally show ?thesis
    by simp
qed

lemma unat_blocks_needed:
  assumes "fsz < 2 ^ 63"
  shows "unat ((of_nat fsz + (of_nat BS - 1)) div of_nat BS :: u64) = (fsz + 4095) div 4096"
proof -
  have "(of_nat fsz + (of_nat BS - 1) :: u64) = of_nat (fsz + 4095)"
    by (simp add: BS_def)
  moreover have "unat (of_nat (fsz + 4095) :: u64) = fsz + 4095"
    by (rule of_nat_inverse[OF refl]) (use assms in simp)
  ultimately show ?thesis
    by (simp add: unat_div BS_def)
qed

text \<open>
  Claim C7. On an image that passes the validation and has a free inode, for a file of
  \<open>S\<close> bytes the run fails with FileTooLarge exactly when \<open>S > 12 * 4096\<close>, which is when the
  ceiling of \<open>S / 4096\<close> exceeds 12; the failure leaves the buffer as loaded and writes no
  output. \<open>S\<close> is what \<^verbatim>\<open>ftell\<close> returns, a \<^verbatim>\<open>long\<close>.
\<close>

theorem file_too_large:
  assumes "length img \<noteq> 0" "rd32 img off_sb_block_size = 4096"
    and "rd32 img off_sb_magic = 0x4D565346"
    and "bitmap_ffz img (unat (rd64 img off_sb_inode_bitmap_start * of_nat BS))
           (unat (rd64 img off_sb_inode_count)) = Some free_in"
    and "length fbuf < 2 ^ 63"
  shows "(mkfs_adder_main img filepath fbuf now = Fail FileTooLarge 1 img) = (12 * 4096 < length fbuf)
    \<and> (\<exists>code buf. mkfs_adder_main img filepath fbuf now = Fail FileTooLarge code buf)
        = (12 < nat \<lceil>real (length fbuf) / 4096\<rceil>)
    \<and> (12 < nat \<lceil>real (length fbuf) / 4096\<rceil>) = (12 * 4096 < length fbuf)"
proof -
  let ?bn = "(of_nat (length fbuf) + (of_nat BS - 1)) div of_nat BS :: u64"
  have fi: "free_in < unat (rd64 img off_sb_inode_count)"
    using bitmap_ffz_Some[OF assms(4)] by simp
  have bn: "(?bn > of_nat DIRECT_MAX) = (12 * 4096 < length fbuf)"
    unfolding word_less_nat_alt unat_blocks_needed[OF assms(5)]
    by (simp add: DIRECT_MAX_def) arith
  have a: "mkfs_adder_main img filepath fbuf now = Fail FileTooLarge 1 img"
    if "12 * 4096 < length fbuf"
    using that assms(1-4) fi bn unfolding mkfs_adder_main_def Let_def
    by (simp add: BS_def)
  have b: "mkfs_adder_main img filepath fbuf now \<noteq> Fail FileTooLarge code buf"
    if "\<not> 12 * 4096 < length fbuf" for code buf
    using that assms(1-4) fi bn unfolding mkfs_adder_main_def Let_def
    by (auto simp: BS_def split: if_splits option.splits sum.splits prod.splits dest: dir_scan_Inl)
  have c: "(12 < nat \<lceil>real (length fbuf) / 4096\<rceil>) = (12 * 4096 < length fbuf)"
    unfolding ceiling_div_4096 by arith
  show ?thesis
    using a b c by auto
qed

text \<open>Run over block 0 of that image, the builder's routine changes the stored checksum.\<close>

theorem builder_superblock_checksum_invalid_witness:
  "superblock_crc_finalize_builder
     (created_image (mkfs_builder_main (Some []) 180 128 0 (replicate 3975 0 @ [1]))) 0
   \<noteq> created_image (mkfs_builder_main (Some []) 180 128 0 (replicate 3975 0 @ [1]))"
proof
  let ?F = "created_image (mkfs_builder_main (Some []) 180 128 0 (replicate 3975 0 @ [1]))"
  assume e: "superblock_crc_finalize_builder ?F 0 = ?F"
  have len: "off_sb_checksum + 4 \<le> length ?F"
    using builder_superblock_checksum_invalid by (simp add: off_sb_checksum_def)
  have "rd32 (superblock_crc_finalize_builder ?F 0) off_sb_checksum
        = crc32 (read_bytes (wr32 ?F off_sb_checksum 0) 0 (BS - 4))"
    unfolding superblock_crc_finalize_builder_def Let_def using len by (simp add: rd32_wr32)
  with e builder_superblock_checksum_invalid show False
    by simp
qed

subsection \<open>Reading the fresh image\<close>

lemma fresh_image_eq:
  "fresh_image now stack =
     (take 112 (superblock_bytes (builder_superblock 180 128 now))
      @ le32 (crc32 (take 4092 (superblock_bytes (builder_superblock 180 128 now) @ stack)))
      @ replicate 3980 0)
     @ (1 # replicate 4095 0)
     @ (1 # replicate 4095 0)
     @ (take 120 (inode_bytes (root_inode 128 now))
        @ le64 (ucast (crc32 (take 120 (inode_bytes (root_inode 128 now)))))
        @ replicate 16256 0)
     @ dot @ dotdot @ replicate 155520 0"
  unfolding fresh_image_def
  using builder_image[of 180 128 "[]" now stack] layout_planner_witness by simp

lemma length_fresh_image [simp]: "length (fresh_image now stack) = 184320"
  by (simp add: fresh_image_eq)

lemma nth_via_drop: "n \<le> a \<Longrightarrow> a < length xs \<Longrightarrow> xs ! a = drop n xs ! (a - n)"
  by simp

lemma drop_fresh_4096:
  "drop 4096 (fresh_image now stack) =
     (1 # replicate 4095 0) @ (1 # replicate 4095 0)
     @ (take 120 (inode_bytes (root_inode 128 now))
        @ le64 (ucast (crc32 (take 120 (inode_bytes (root_inode 128 now)))))
        @ replicate 16256 0)
     @ dot @ dotdot @ replicate 155520 0"
  by (simp add: fresh_image_eq)

lemma drop_fresh_8192:
  "drop 8192 (fresh_image now stack) =
     (1 # replicate 4095 0)
     @ (take 120 (inode_bytes (root_inode 128 now))
        @ le64 (ucast (crc32 (take 120 (inode_bytes (root_inode 128 now)))))
        @ replicate 16256 0)
     @ dot @ dotdot @ replicate 155520 0"
  by (simp add: fresh_image_eq)

lemma drop_fresh_12288:
  "drop 12288 (fresh_image now stack) =
     take 120 (inode_bytes (root_inode 128 now))
     @ (le64 (ucast (crc32 (take 120 (inode_bytes (root_inode 128 now)))))
        @ replicate 16256 0)
     @ dot @ dotdot @ replicate 155520 0"
  by (simp add: fresh_image_eq)

lemma drop_fresh_12416:
  "drop 12416 (fresh_image now stack) = replicate 16256 0 @ dot @ dotdot @ replicate 155520 0"
  by (simp add: fresh_image_eq)

lemma drop_fresh_28672:
  "drop 28672 (fresh_image now stack) = dot @ dotdot @ replicate 155520 0"
  by (simp add: fresh_image_eq)

lemma drop_fresh_28736:
  "drop 28736 (fresh_image now stack) = dotdot @ replicate 155520 0"
  by (simp add: fresh_image_eq)

lemma drop_fresh_28800:
  "drop 28800 (fresh_image now stack) = replicate 155520 0"
  by (simp add: fresh_image_eq)

lemma fresh_nth_sb:
  "a < 112 \<Longrightarrow> fresh_image now stack ! a = superblock_bytes (builder_superblock 180 128 now) ! a"
  by (simp add: fresh_image_eq nth_append)

lemma fresh_nth_inode_bm:
  assumes "4096 \<le> a" "a < 8192"
  shows "fresh_image now stack ! a = (if a = 4096 then 1 else 0)"
proof -
  have k: "a - 4096 < 4096" "a - 4096 - 1 < 4095" "(a - 4096 = 0) = (a = 4096)"
    using assms by arith+
  have "fresh_image now stack ! a = drop 4096 (fresh_image now stack) ! (a - 4096)"
    using assms by (intro nth_via_drop) simp_all
  then show ?thesis
    unfolding drop_fresh_4096 using k by (simp add: nth_append nth_Cons')
qed

lemma fresh_nth_data_bm:
  assumes "8192 \<le> a" "a < 12288"
  shows "fresh_image now stack ! a = (if a = 8192 then 1 else 0)"
proof -
  have k: "a - 8192 < 4096" "a - 8192 - 1 < 4095" "(a - 8192 = 0) = (a = 8192)"
    using assms by arith+
  have "fresh_image now stack ! a = drop 8192 (fresh_image now stack) ! (a - 8192)"
    using assms by (intro nth_via_drop) simp_all
  then show ?thesis
    unfolding drop_fresh_8192 using k by (simp add: nth_append nth_Cons')
qed

lemma fresh_nth_root:
  assumes "12288 \<le> a" "a < 12408"
  shows "fresh_image now stack ! a = inode_bytes (root_inode 128 now) ! (a - 12288)"
proof -
  have k: "a - 12288 < 120"
    using assms by arith
  have "fresh_image now stack ! a = drop 12288 (fresh_image now stack) ! (a - 12288)"
    using assms by (intro nth_via_drop) simp_all
  then show ?thesis
    unfolding drop_fresh_12288 using k by (simp add: nth_append)
qed

lemma fresh_nth_itab_zero:
  assumes "12416 \<le> a" "a < 28672"
  shows "fresh_image now stack ! a = 0"
proof -
  have k: "a - 12416 < 16256"
    using assms by arith
  have "fresh_image now stack ! a = drop 12416 (fresh_image now stack) ! (a - 12416)"
    using assms by (intro nth_via_drop) simp_all
  then show ?thesis
    unfolding drop_fresh_12416 using k by (simp add: nth_append)
qed

lemma fresh_nth_dot:
  assumes "28672 \<le> a" "a < 28736"
  shows "fresh_image now stack ! a = dot ! (a - 28672)"
proof -
  have k: "a - 28672 < 64"
    using assms by arith
  have "fresh_image now stack ! a = drop 28672 (fresh_image now stack) ! (a - 28672)"
    using assms by (intro nth_via_drop) simp_all
  then show ?thesis
    unfolding drop_fresh_28672 using k by (simp add: nth_append)
qed

lemma fresh_nth_dotdot:
  assumes "28736 \<le> a" "a < 28800"
  shows "fresh_image now stack ! a = dotdot ! (a - 28736)"
proof -
  have k: "a - 28736 < 64"
    using assms by arith
  have "fresh_image now stack ! a = drop 28736 (fresh_image now stack) ! (a - 28736)"
    using assms by (intro nth_via_drop) simp_all
  then show ?thesis
    unfolding drop_fresh_28736 using k by (simp add: nth_append)
qed

lemma fresh_nth_data_zero:
  assumes "28800 \<le> a" "a < 184320"
  shows "fresh_image now stack ! a = 0"
proof -
  have k: "a - 28800 < 155520"
    using assms by arith
  have "fresh_image now stack ! a = drop 28800 (fresh_image now stack) ! (a - 28800)"
    using assms by (intro nth_via_drop) simp_all
  then show ?thesis
    unfolding drop_fresh_28800 using k by simp
qed

lemma upt_12: "[0..<12] = [0, 1, 2, 3, 4, 5, 6, 7, 8, 9, 10, 11]"
  by code_simp

lemma layout_180_128:
  "total_blocks 180 = 45" "inode_table_blocks 128 = 4" "data_region_start 128 = 7"
  "data_region_blocks 180 128 = 38"
  by (simp_all add: total_blocks_def inode_table_blocks_def data_region_start_def
      data_region_blocks_def inode_table_start_def)

lemma rd32_cong: "(\<And>i. i < 4 \<Longrightarrow> a ! (p + i) = b ! (q + i)) \<Longrightarrow> rd32 a p = rd32 b q"
proof -
  assume h: "\<And>i. i < 4 \<Longrightarrow> a ! (p + i) = b ! (q + i)"
  have "a ! p = b ! q"
    using h[of 0] by simp
  then show ?thesis
    using h[of 1] h[of 2] h[of 3] by (simp add: rd32_def)
qed

lemma rd64_cong: "(\<And>i. i < 8 \<Longrightarrow> a ! (p + i) = b ! (q + i)) \<Longrightarrow> rd64 a p = rd64 b q"
proof -
  assume h: "\<And>i. i < 8 \<Longrightarrow> a ! (p + i) = b ! (q + i)"
  have "a ! p = b ! q"
    using h[of 0] by simp
  then show ?thesis
    using h[of 1] h[of 2] h[of 3] h[of 4] h[of 5] h[of 6] h[of 7] by (simp add: rd64_def)
qed

lemma rd16_cong: "(\<And>i. i < 2 \<Longrightarrow> a ! (p + i) = b ! (q + i)) \<Longrightarrow> rd16 a p = rd16 b q"
proof -
  assume h: "\<And>i. i < 2 \<Longrightarrow> a ! (p + i) = b ! (q + i)"
  have "a ! p = b ! q"
    using h[of 0] by simp
  then show ?thesis
    using h[of 1] by (simp add: rd16_def)
qed

lemma superblock_fields:
  "rd32 (superblock_bytes sb) 0 = sb_magic sb"
  "rd32 (superblock_bytes sb) 8 = sb_block_size sb"
  "rd64 (superblock_bytes sb) 20 = sb_inode_count sb"
  "rd64 (superblock_bytes sb) 28 = sb_inode_bitmap_start sb"
  "rd64 (superblock_bytes sb) 44 = sb_data_bitmap_start sb"
  "rd64 (superblock_bytes sb) 60 = sb_inode_table_start sb"
  "rd64 (superblock_bytes sb) 76 = sb_data_region_start sb"
  "rd64 (superblock_bytes sb) 84 = sb_data_region_blocks sb"
  by (simp_all add: superblock_bytes_def rd32_def rd64_def le32_def le64_def le32_rd le64_rd)

lemma fresh_superblock:
  "rd32 (fresh_image now stack) off_sb_magic = 0x4D565346"
  "rd32 (fresh_image now stack) off_sb_block_size = 4096"
  "rd64 (fresh_image now stack) off_sb_inode_count = 128"
  "rd64 (fresh_image now stack) off_sb_inode_bitmap_start = 1"
  "rd64 (fresh_image now stack) off_sb_data_bitmap_start = 2"
  "rd64 (fresh_image now stack) off_sb_inode_table_start = 3"
  "rd64 (fresh_image now stack) off_sb_data_region_start = 7"
  "rd64 (fresh_image now stack) off_sb_data_region_blocks = 38"
proof -
  let ?F = "fresh_image now stack"
  let ?sbb = "superblock_bytes (builder_superblock 180 128 now)"
  have a: "rd32 ?F p = rd32 ?sbb p" if "p + 4 \<le> 112" for p
    by (rule rd32_cong) (use that in \<open>simp add: fresh_nth_sb\<close>)
  have b: "rd64 ?F p = rd64 ?sbb p" if "p + 8 \<le> 112" for p
    by (rule rd64_cong) (use that in \<open>simp add: fresh_nth_sb\<close>)
  show "rd32 ?F off_sb_magic = 0x4D565346" "rd32 ?F off_sb_block_size = 4096"
    by (simp_all add: off_sb_magic_def off_sb_block_size_def a superblock_fields
        builder_superblock_def BS_def)
  show "rd64 ?F off_sb_inode_count = 128" "rd64 ?F off_sb_inode_bitmap_start = 1"
    "rd64 ?F off_sb_data_bitmap_start = 2" "rd64 ?F off_sb_inode_table_start = 3"
    "rd64 ?F off_sb_data_region_start = 7" "rd64 ?F off_sb_data_region_blocks = 38"
    by (simp_all add: off_sb_inode_count_def off_sb_inode_bitmap_start_def
        off_sb_data_bitmap_start_def off_sb_inode_table_start_def off_sb_data_region_start_def
        off_sb_data_region_blocks_def b superblock_fields builder_superblock_def layout_180_128
        inode_bitmap_start_def data_bitmap_start_def inode_table_start_def)
qed

lemma inode_direct_field:
  "k < 12 \<Longrightarrow> rd32 (inode_bytes ino) (44 + 4 * k) = i_direct ino ! k"
proof -
  assume "k < 12"
  then have "k \<in> set [0..<12]"
    by simp
  then have "k = 0 \<or> k = 1 \<or> k = 2 \<or> k = 3 \<or> k = 4 \<or> k = 5 \<or> k = 6 \<or> k = 7
    \<or> k = 8 \<or> k = 9 \<or> k = 10 \<or> k = 11"
    unfolding upt_12 by simp
  then show ?thesis
    by (elim disjE)
       (simp_all add: inode_bytes_def DIRECT_MAX_def upt_12 rd32_def le16_def le32_def
        le64_def le32_rd)
qed

lemma fresh_root_direct: "rd32 (fresh_image now stack) (12288 + off_i_direct) = 7"
proof -
  have "rd32 (fresh_image now stack) 12332 = rd32 (inode_bytes (root_inode 128 now)) 44"
    by (rule rd32_cong) (simp add: fresh_nth_root)
  also have "\<dots> = 7"
    using inode_direct_field[of 0 "root_inode 128 now"]
    by (simp add: root_inode_def layout_180_128 DIRECT_MAX_def)
  finally show ?thesis
    by (simp add: off_i_direct_def)
qed

subsection \<open>Names and directory entries\<close>

lemma strncpy_name:
  "strncpy (replicate 58 0) s (58 - 1) = take 57 s @ replicate (58 - length (take 57 s)) 0"
proof -
  have "length (take 57 s @ replicate (57 - length s) (0::u8)) = 57"
    by simp
  then have "write_bytes (replicate 58 0) 0 (take 57 s @ replicate (57 - length s) 0)
      = (take 57 s @ replicate (57 - length s) 0) @ replicate (58 - 57) 0"
    using write_bytes_replicate_0[of "take 57 s @ replicate (57 - length s) 0" 58 "0::u8"]
    by simp
  also have "\<dots> = take 57 s @ replicate (57 - length s + 1) 0"
    by (simp add: replicate_append_same)
  also have "57 - length s + 1 = 58 - length (take 57 s)"
    by simp
  finally show ?thesis
    by (simp add: strncpy_def)
qed

lemma dirent_layout:
  assumes "length nm = 58"
  shows "\<exists>x. dirent_checksum_finalize
           (dirent_bytes \<lparr>de_inode_no = ino, de_type = ty, de_name = nm, de_checksum = c\<rparr>) 0
         = le32 ino @ [ty] @ nm @ [x]"
proof -
  have "(le32 ino @ [ty] @ nm @ [c])[63 := x] = le32 ino @ [ty] @ nm @ [x]" for x
    using assms by (simp add: list_update_append)
  then show ?thesis
    using assms by (simp add: dirent_checksum_finalize_def Let_def dirent_bytes_def off_de_checksum_def)
qed

lemma strncmp_eq_padded:
  assumes "0 \<notin> set s" "0 \<notin> set b"
  shows "strncmp_eq (s @ replicate k 0) b n \<longleftrightarrow> take n s = take n b"
  using assms
proof (induction n arbitrary: s b)
  case 0
  then show ?case by simp
next
  case (Suc n)
  show ?case
  proof (cases s)
    case Nil
    then show ?thesis
      using Suc.prems by (cases b; cases k) auto
  next
    case (Cons c cs)
    then show ?thesis
      using Suc.prems Suc.IH[of cs "tl b"] by (cases b) auto
  qed
qed

lemma take_eq_self_iff: "length s < n \<Longrightarrow> take n b = s \<longleftrightarrow> b = s"
  by (metis length_take min_less_iff_conj nat_neq_iff take_all_iff linorder_not_less min.absorb4)

subsection \<open>The directory scan\<close>

lemma dir_scan_free:
  assumes "\<And>i. i \<in> set is \<Longrightarrow> rd32 img (dblk + i * sizeof_dirent) = 0"
  shows "dir_scan img dblk base is slot used
         = Inr (case slot of None \<Rightarrow> (case is of [] \<Rightarrow> None | i # _ \<Rightarrow> Some i) | Some s \<Rightarrow> Some s, used)"
  using assms
proof (induction "is" arbitrary: slot)
  case Nil
  then show ?case by (simp split: option.splits)
next
  case (Cons i "is")
  then show ?case
    by (cases slot) (simp_all split: list.splits)
qed

lemma upt_64: "[0..<64] = 0 # 1 # [2..<64]"
  by (simp add: upt_conv_Cons)

subsection \<open>Bytes a step leaves alone\<close>

lemma nth_bitmap_set_other: "a \<noteq> bm + idx div 8 \<Longrightarrow> bitmap_set buf bm idx ! a = buf ! a"
  by (simp add: bitmap_set_def)

lemma nth_bitmap_set_same:
  "bm + idx div 8 < length buf \<Longrightarrow>
     bitmap_set buf bm idx ! (bm + idx div 8) = buf ! (bm + idx div 8) OR push_bit (idx mod 8) 1"
  by (simp add: bitmap_set_def)

lemma nth_inode_crc_adder_other:
  "a < p + 120 \<or> p + 128 \<le> a \<Longrightarrow> inode_crc_finalize_adder mem p ! a = mem ! a"
  by (auto simp: inode_crc_finalize_adder_def Let_def wr64_def off_i_inode_crc_def
      nth_write_bytes_other)

lemma length_inode_crc_adder [simp]: "length (inode_crc_finalize_adder mem p) = length mem"
  by (simp add: inode_crc_finalize_adder_def Let_def)

lemma nth_sb_crc_adder_other:
  "a < p + 112 \<or> p + 116 \<le> a \<Longrightarrow> superblock_crc_finalize_adder mem p ! a = mem ! a"
  by (auto simp: superblock_crc_finalize_adder_def Let_def wr32_def off_sb_checksum_def
      nth_write_bytes_other)

lemma length_sb_crc_adder [simp]: "length (superblock_crc_finalize_adder mem p) = length mem"
  by (simp add: superblock_crc_finalize_adder_def Let_def)

lemma length_write_file_block [simp]:
  "length (write_file_block fbuf fsz direct img i) = length img"
  by (simp add: write_file_block_def Let_def)

lemma nth_write_file_block_other:
  "a < unat (direct ! i) * BS \<or> unat (direct ! i) * BS + BS \<le> a \<Longrightarrow>
     write_file_block fbuf fsz direct img i ! a = img ! a"
proof -
  assume o: "a < unat (direct ! i) * BS \<or> unat (direct ! i) * BS + BS \<le> a"
  have w1: "write_bytes m (unat (direct ! i) * BS) (read_bytes fbuf x n) ! a = m ! a"
    if "n \<le> BS" for m n x
  proof (rule nth_write_bytes_other)
    have "length (read_bytes fbuf x n) \<le> n"
      by (simp add: length_read_bytes)
    with o that
    show "a < unat (direct ! i) * BS \<or> unat (direct ! i) * BS + length (read_bytes fbuf x n) \<le> a"
      by linarith
  qed
  have w2: "write_bytes m (unat (direct ! i) * BS + n) (replicate (BS - n) 0) ! a = m ! a"
    if "n \<le> BS" for m n
    by (rule nth_write_bytes_other) (use o that in auto)
  show ?thesis
    by (simp add: write_file_block_def Let_def w1 w2)
qed

lemma nth_wr16_other: "a < p \<or> p + 2 \<le> a \<Longrightarrow> wr16 buf p w ! a = buf ! a"
  by (auto simp: wr16_def nth_write_bytes_other)

lemma nth_wr64_other: "a < p \<or> p + 8 \<le> a \<Longrightarrow> wr64 buf p w ! a = buf ! a"
  by (auto simp: wr64_def nth_write_bytes_other)

lemma set_basename: "set (basename p) \<subseteq> set p"
  unfolding basename_def using set_takeWhileD by fastforce

subsection \<open>Adding a file of 5000 bytes to the fresh image\<close>

lemma fresh_ffz_inode: "bitmap_ffz (fresh_image now stack) 4096 128 = Some 1"
proof (rule bitmap_ffz_SomeI)
  show "(1::nat) < 128" by simp
  show "\<not> bitmap_test (fresh_image now stack) 4096 1"
    by (simp add: bitmap_test_def fresh_nth_inode_bm)
  show "bitmap_test (fresh_image now stack) 4096 j" if "j < 1" for j
    using that by (simp add: bitmap_test_def fresh_nth_inode_bm)
qed

lemma fresh_alloc_2:
  "alloc_blocks (fresh_image now stack) 8192 38 7 [0..<2] (replicate 12 0)
     = Inr (bitmap_set (bitmap_set (fresh_image now stack) 8192 1) 8192 2,
            (replicate 12 0)[0 := 8, 1 := 9])"
proof -
  let ?F = "fresh_image now stack"
  let ?A1 = "bitmap_set ?F 8192 1"
  have f1: "bitmap_ffz ?F 8192 38 = Some 1"
  proof (rule bitmap_ffz_SomeI)
    show "(1::nat) < 38" by simp
    show "\<not> bitmap_test ?F 8192 1"
      by (simp add: bitmap_test_def fresh_nth_data_bm)
    show "bitmap_test ?F 8192 j" if "j < 1" for j
      using that by (simp add: bitmap_test_def fresh_nth_data_bm)
  qed
  have "?A1 ! 8192 = 3"
    using nth_bitmap_set_same[of 8192 1 ?F] by (simp add: fresh_nth_data_bm)
  then have a1: "?A1 ! 8192 = 3" "bitmap_set ?F 8192 (Suc 0) ! 8192 = 3"
    by simp_all
  have f2: "bitmap_ffz ?A1 8192 38 = Some 2"
  proof (rule bitmap_ffz_SomeI)
    show "(2::nat) < 38" by simp
    show "\<not> bitmap_test ?A1 8192 2"
      by (simp add: bitmap_test_def a1)
    show "bitmap_test ?A1 8192 j" if "j < 2" for j
    proof -
      from that have "j = 0 \<or> j = 1" by arith
      then show ?thesis
        by (auto simp: bitmap_test_def a1)
    qed
  qed
  have u: "[0..<2] = [0, Suc 0]"
    by (simp add: upt_conv_Cons)
  show ?thesis
    unfolding u alloc_blocks.simps f1 option.case f2 by simp
qed


lemma dot_layout: "\<exists>x. dot = le32 1 @ [2] @ ([0x2E] @ replicate 57 0) @ [x]"
proof -
  have n: "strncpy (replicate 58 0) [0x2E] (58 - 1) = [0x2E] @ replicate 57 0"
    unfolding strncpy_name by simp
  show ?thesis
    unfolding dot_def dir_entry_def n ROOT_INO_def by (rule dirent_layout) simp
qed

lemma dotdot_layout: "\<exists>x. dotdot = le32 1 @ [2] @ ([0x2E, 0x2E] @ replicate 56 0) @ [x]"
proof -
  have n: "strncpy (replicate 58 0) [0x2E, 0x2E] (58 - 1) = [0x2E, 0x2E] @ replicate 56 0"
    unfolding strncpy_name by simp
  show ?thesis
    unfolding dotdot_def dir_entry_def n ROOT_INO_def by (rule dirent_layout) simp
qed

lemma strncmp_eq_short:
  assumes "0 \<notin> set s" "0 \<notin> set b" "length s < n"
  shows "strncmp_eq (s @ replicate k 0) b n \<longleftrightarrow> b = s"
proof -
  have "strncmp_eq (s @ replicate k 0) b n \<longleftrightarrow> take n s = take n b"
    by (rule strncmp_eq_padded) fact+
  also have "\<dots> \<longleftrightarrow> take n b = s"
    using assms(3) by auto
  also have "\<dots> \<longleftrightarrow> b = s"
    by (rule take_eq_self_iff) fact
  finally show ?thesis .
qed

lemma fresh_dir_entries:
  assumes "0 \<notin> set b" "b \<noteq> [0x2E]" "b \<noteq> [0x2E, 0x2E]"
    and same: "\<And>a. 28672 \<le> a \<Longrightarrow> a < 28800 \<Longrightarrow> img ! a = fresh_image now stack ! a"
    and len: "length img = 184320"
  shows "rd32 img (28672 + 0 * sizeof_dirent) \<noteq> 0"
    and "\<not> strncmp_eq (read_bytes img (28672 + 0 * sizeof_dirent + off_de_name) 58) b 58"
    and "rd32 img (28672 + 1 * sizeof_dirent) \<noteq> 0"
    and "\<not> strncmp_eq (read_bytes img (28672 + 1 * sizeof_dirent + off_de_name) 58) b 58"
proof -
  let ?F = "fresh_image now stack"
  obtain x where d: "dot = le32 1 @ [2] @ ([0x2E] @ replicate 57 0) @ [x]"
    using dot_layout by blast
  obtain y where dd: "dotdot = le32 1 @ [2] @ ([0x2E, 0x2E] @ replicate 56 0) @ [y]"
    using dotdot_layout by blast
  have e0: "img ! (28672 + i) = dot ! i" if "i < 64" for i
    using that by (simp add: same fresh_nth_dot)
  have e1: "img ! (28736 + i) = dotdot ! i" if "i < 64" for i
    using that by (simp add: same fresh_nth_dotdot)
  have "rd32 img 28672 = rd32 dot 0"
    by (rule rd32_cong) (simp add: e0)
  then show "rd32 img (28672 + 0 * sizeof_dirent) \<noteq> 0"
    unfolding d by (simp add: rd32_at[of "[]", simplified])
  have "rd32 img 28736 = rd32 dotdot 0"
    by (rule rd32_cong) (simp add: e1)
  then show "rd32 img (28672 + 1 * sizeof_dirent) \<noteq> 0"
    unfolding dd by (simp add: rd32_at[of "[]", simplified] sizeof_dirent_def)
  have "read_bytes img 28677 58 = [0x2E] @ replicate 57 0"
  proof (rule nth_equalityI)
    show "length (read_bytes img 28677 58) = length ([0x2E] @ replicate 57 (0::u8))"
      using len by (simp add: length_read_bytes)
  next
    fix i assume "i < length (read_bytes img 28677 58)"
    then have i: "i < 58"
      by (simp add: length_read_bytes)
    then have "read_bytes img 28677 58 ! i = dot ! (5 + i)"
      using e0[of "5 + i"] len by (simp add: nth_read_bytes add.commute add.left_commute)
    also have "\<dots> = (([0x2E] @ replicate 57 0) @ [x]) ! i"
      unfolding d using nth_append_length_plus[of "le32 1 @ [2]" "([0x2E] @ replicate 57 0) @ [x]" i]
      by simp
    also have "\<dots> = ([0x2E] @ replicate 57 0) ! i"
      by (subst nth_append) (use i in simp)
    finally show "read_bytes img 28677 58 ! i = ([0x2E] @ replicate 57 0) ! i" .
  qed
  then show "\<not> strncmp_eq (read_bytes img (28672 + 0 * sizeof_dirent + off_de_name) 58) b 58"
    using assms(1,2) strncmp_eq_short[of "[0x2E]" b 58 57] by (simp add: off_de_name_def)
  have "read_bytes img 28741 58 = [0x2E, 0x2E] @ replicate 56 0"
  proof (rule nth_equalityI)
    show "length (read_bytes img 28741 58) = length ([0x2E, 0x2E] @ replicate 56 (0::u8))"
      using len by (simp add: length_read_bytes)
  next
    fix i assume "i < length (read_bytes img 28741 58)"
    then have i: "i < 58"
      by (simp add: length_read_bytes)
    then have "read_bytes img 28741 58 ! i = dotdot ! (5 + i)"
      using e1[of "5 + i"] len by (simp add: nth_read_bytes add.commute add.left_commute)
    also have "\<dots> = (([0x2E, 0x2E] @ replicate 56 0) @ [y]) ! i"
      unfolding dd using nth_append_length_plus[of "le32 1 @ [2]" "([0x2E, 0x2E] @ replicate 56 0) @ [y]" i]
      by simp
    also have "\<dots> = ([0x2E, 0x2E] @ replicate 56 0) ! i"
      by (subst nth_append) (use i in simp)
    finally show "read_bytes img 28741 58 ! i = ([0x2E, 0x2E] @ replicate 56 0) ! i" .
  qed
  then show "\<not> strncmp_eq (read_bytes img (28672 + 1 * sizeof_dirent + off_de_name) 58) b 58"
    using assms(1,3) strncmp_eq_short[of "[0x2E, 0x2E]" b 58 56]
    by (simp add: off_de_name_def sizeof_dirent_def)
qed

lemma fresh_dir_scan:
  assumes "0 \<notin> set b" "b \<noteq> [0x2E]" "b \<noteq> [0x2E, 0x2E]"
    and same: "\<And>a. 28672 \<le> a \<Longrightarrow> a < 32768 \<Longrightarrow> img ! a = fresh_image now stack ! a"
    and len: "length img = 184320"
  shows "dir_scan img 28672 b [0..<64] None 0 = Inr (Some 2, 2)"
proof -
  have z: "rd32 img (28672 + i * sizeof_dirent) = 0" if "i \<in> set [2..<64]" for i
  proof -
    have i: "2 \<le> i" "i < 64"
      using that unfolding set_upt by simp_all
    have "img ! (28672 + i * 64 + k) = 0" if "k < 4" for k
    proof -
      have "28800 \<le> 28672 + i * 64 + k" "28672 + i * 64 + k < 32768"
        using i that by simp_all
      then show ?thesis
        by (simp add: same fresh_nth_data_zero)
    qed
    from this[of 0] this[of 1] this[of 2] this[of 3] show ?thesis
      by (simp add: rd32_def sizeof_dirent_def)
  qed
  have fr: "dir_scan img 28672 b [2..<64] None (0 + 1 + 1) = Inr (Some 2, 2)"
    by (subst dir_scan_free[OF z]) (simp_all add: upt_conv_Cons)
  note e = fresh_dir_entries[OF assms(1-3) same len]
  show ?thesis
    unfolding upt_64 dir_scan.simps using e fr
    by (simp only: if_True if_False not_False_eq_True)
qed

lemma file_dirent_layout:
  "\<exists>x. dirent_checksum_finalize (dirent_bytes (file_dirent ino b)) 0
       = le32 ino @ [1] @ (take 57 b @ replicate (58 - length (take 57 b)) 0) @ [x]"
  unfolding file_dirent_def strncpy_name by (rule dirent_layout) simp

lemma fresh_insert:
  assumes len: "length fbuf = 5000" and nz: "0 \<notin> set filepath"
    and nd: "basename filepath \<noteq> [0x2E]" "basename filepath \<noteq> [0x2E, 0x2E]"
  shows "\<exists>G. mkfs_adder_main (fresh_image now stack) filepath fbuf now' = Written G
    \<and> length G = 184320
    \<and> (\<forall>a. a < 100 \<or> (4097 \<le> a \<and> a < 8192) \<or> (8193 \<le> a \<and> a < 12290)
           \<or> (12308 \<le> a \<and> a < 12408) \<or> (28672 \<le> a \<and> a < 28800)
           \<or> (28864 \<le> a \<and> a < 32768)
         \<longrightarrow> G ! a = fresh_image now stack ! a)
    \<and> G ! 4096 = 3 \<and> G ! 8192 = 7
    \<and> rd32 G 12460 = 8 \<and> rd32 G 12464 = 9 \<and> rd32 G 12468 = 0
    \<and> rd32 G 28800 = 2 \<and> G ! 28804 = 1
    \<and> read_bytes G 28805 58
        = take 57 (basename filepath) @ replicate (58 - length (take 57 (basename filepath))) 0"
proof -
  let ?F = "fresh_image now stack"
  let ?b = "basename filepath"
  define A0 where "A0 = bitmap_set (bitmap_set ?F 8192 (Suc 0)) 8192 2"
  define dir where "dir = (replicate 12 (0::u32))[0 := 8, Suc 0 := 9]"
  define S1 where "S1 = write_bytes A0 12416 (inode_bytes (file_inode 5000 now' dir))"
  define S2 where "S2 = inode_crc_finalize_adder S1 12416"
  define S3 where "S3 = bitmap_set S2 4096 (Suc 0)"
  define S4 where "S4 = foldl (write_file_block fbuf 5000 dir) S3 [0..<2]"
  define de where "de = dirent_checksum_finalize (dirent_bytes (file_dirent 2 ?b)) 0"
  define S5 where "S5 = write_bytes S4 28800 de"
  define S6 where "S6 = wr16 S5 12290 (rd16 S5 12290 + 1)"
  define S7 where "S7 = wr64 S6 12300 192"
  define S8 where "S8 = inode_crc_finalize_adder S7 12288"
  define S9 where "S9 = wr64 S8 100 now'"
  define G where "G = superblock_crc_finalize_adder S9 0"
  have bz: "0 \<notin> set ?b"
    using nz set_basename by blast
  have A0_same: "A0 ! a = ?F ! a" if "a \<noteq> 8192" for a
    using that by (simp add: A0_def nth_bitmap_set_other)
  have lenA0: "length A0 = 184320"
    by (simp add: A0_def)
  have alloc: "alloc_blocks ?F 8192 38 7 [0..<2] (replicate 12 0) = Inr (A0, dir)"
    unfolding fresh_alloc_2 A0_def dir_def by simp
  have "rd32 A0 12332 = rd32 ?F 12332"
    by (rule rd32_cong) (simp add: A0_same)
  then have fdb: "rd32 A0 12332 = 7"
    using fresh_root_direct[of now stack] by (simp add: off_i_direct_def)
  have scan: "dir_scan A0 28672 ?b [0..<64] None 0 = Inr (Some 2, 2)"
    by (rule fresh_dir_scan[OF bz nd _ lenA0]) (simp add: A0_same)
  have run: "mkfs_adder_main ?F filepath fbuf now' = Written G"
    unfolding mkfs_adder_main_def Let_def G_def S9_def S8_def S7_def S6_def S5_def de_def S4_def
      S3_def S2_def S1_def
    by (simp add: fresh_superblock BS_def DIRECT_MAX_def INODE_SIZE_def sizeof_dirent_def
        off_i_direct_def off_i_links_def off_i_size_bytes_def off_sb_mtime_epoch_def
        fresh_ffz_inode len alloc fdb scan del: upt_rec_numeral)
  have lens: "length S1 = 184320" "length S2 = 184320" "length S3 = 184320"
    by (simp_all add: S1_def S2_def S3_def lenA0)
  have lenS4: "length S4 = 184320"
    by (simp add: S4_def upt_conv_Cons lens)
  have lenG: "length G = 184320"
    by (simp add: G_def S9_def S8_def S7_def S6_def S5_def lenS4)
  have d: "dir ! 0 = 8" "dir ! Suc 0 = 9" "dir ! 2 = 0"
    by (simp_all add: dir_def)
  have S4_same: "S4 ! a = S3 ! a" if "a < 32768 \<or> 40960 \<le> a" for a
    using that by (auto simp: S4_def upt_conv_Cons nth_write_file_block_other d BS_def)
  have lende: "length de = 64"
    by (simp add: de_def)
  have G_S5: "G ! a = S5 ! a"
    if "a < 100 \<or> (116 \<le> a \<and> a < 12290) \<or> (12308 \<le> a \<and> a < 12408) \<or> 12416 \<le> a" for a
    using that
    by (auto simp: G_def S9_def S8_def S7_def S6_def nth_sb_crc_adder_other nth_wr64_other
        nth_inode_crc_adder_other nth_wr16_other)
  have S5_S3: "S5 ! a = S3 ! a" if "a < 28800 \<or> (28864 \<le> a \<and> a < 32768)" for a
    using that by (auto simp: S5_def nth_write_bytes_other lende S4_same)
  have S3_A0: "S3 ! a = A0 ! a" if "a \<noteq> 4096" "a < 12416 \<or> 12544 \<le> a" for a
    using that
    by (auto simp: S3_def S2_def S1_def nth_bitmap_set_other nth_inode_crc_adder_other
        nth_write_bytes_other)
  have same: "G ! a = ?F ! a"
    if "a < 100 \<or> (4097 \<le> a \<and> a < 8192) \<or> (8193 \<le> a \<and> a < 12290)
           \<or> (12308 \<le> a \<and> a < 12408) \<or> (28672 \<le> a \<and> a < 28800)
           \<or> (28864 \<le> a \<and> a < 32768)" for a
  proof -
    from that have "G ! a = S5 ! a"
      by (intro G_S5) linarith
    also from that have "\<dots> = S3 ! a"
      by (intro S5_S3) linarith
    also from that have "\<dots> = A0 ! a"
      by (intro S3_A0) linarith+
    also from that have "\<dots> = ?F ! a"
      by (intro A0_same) linarith
    finally show ?thesis .
  qed
  have g4096: "G ! 4096 = 3"
  proof -
    have "G ! 4096 = S3 ! 4096"
      by (simp add: G_S5 S5_S3)
    also have "\<dots> = S2 ! 4096 OR push_bit 1 1"
      unfolding S3_def using nth_bitmap_set_same[of 4096 "Suc 0" S2] by (simp add: lens)
    also have "S2 ! 4096 = ?F ! 4096"
      by (simp add: S2_def S1_def nth_inode_crc_adder_other nth_write_bytes_other A0_same)
    finally show ?thesis
      by (simp add: fresh_nth_inode_bm)
  qed
  have g8192: "G ! 8192 = 7"
  proof -
    have "G ! 8192 = A0 ! 8192"
      by (simp add: G_S5 S5_S3 S3_A0)
    also have "\<dots> = (?F ! 8192 OR push_bit 1 1) OR push_bit 2 1"
      unfolding A0_def
      using nth_bitmap_set_same[of 8192 2 "bitmap_set ?F 8192 (Suc 0)"]
        nth_bitmap_set_same[of 8192 "Suc 0" ?F]
      by simp
    finally show ?thesis
      by (simp add: fresh_nth_data_bm)
  qed
  have ino: "G ! (12416 + i) = inode_bytes (file_inode 5000 now' dir) ! i" if "i < 120" for i
  proof -
    have "G ! (12416 + i) = S3 ! (12416 + i)"
      using that by (simp add: G_S5 S5_S3)
    also have "\<dots> = S1 ! (12416 + i)"
      using that by (simp add: S3_def S2_def nth_bitmap_set_other nth_inode_crc_adder_other)
    also have "\<dots> = inode_bytes (file_inode 5000 now' dir) ! i"
      using that by (simp add: S1_def nth_write_bytes lenA0)
    finally show ?thesis .
  qed
  have dp: "rd32 G (12416 + (44 + 4 * k)) = dir ! k" if "k < 3" for k
  proof -
    have "rd32 G (12416 + (44 + 4 * k)) = rd32 (inode_bytes (file_inode 5000 now' dir)) (44 + 4 * k)"
      by (rule rd32_cong) (use that ino[of "44 + 4 * k + i" for i] in \<open>simp add: add.assoc\<close>)
    also have "\<dots> = dir ! k"
      using that inode_direct_field[of k "file_inode 5000 now' dir"] by (simp add: file_inode_def)
    finally show ?thesis .
  qed
  obtain x where de: "de = le32 2 @ [1] @ (take 57 ?b @ replicate (58 - length (take 57 ?b)) 0) @ [x]"
    unfolding de_def using file_dirent_layout by blast
  have ent: "G ! (28800 + i) = de ! i" if "i < 64" for i
  proof -
    have "G ! (28800 + i) = S5 ! (28800 + i)"
      using that by (simp add: G_S5)
    also have "\<dots> = de ! i"
      using that by (simp add: S5_def nth_write_bytes lende lenS4)
    finally show ?thesis .
  qed
  have e1: "rd32 G 28800 = 2"
  proof -
    have "rd32 G 28800 = rd32 de 0"
      by (rule rd32_cong) (simp add: ent)
    then show ?thesis
      unfolding de by (simp add: rd32_at[of "[]", simplified])
  qed
  have e2: "G ! 28804 = 1"
    using ent[of 4] unfolding de by (simp add: nth_append)
  have e3: "read_bytes G 28805 58 = take 57 ?b @ replicate (58 - length (take 57 ?b)) 0"
    (is "_ = ?nm")
  proof (rule nth_equalityI)
    show "length (read_bytes G 28805 58) = length ?nm"
      by (simp add: length_read_bytes lenG)
  next
    fix i assume "i < length (read_bytes G 28805 58)"
    then have i: "i < 58"
      by (simp add: length_read_bytes)
    then have "read_bytes G 28805 58 ! i = de ! (5 + i)"
      using ent[of "5 + i"] lenG by (simp add: nth_read_bytes add.commute add.left_commute)
    also have "\<dots> = (?nm @ [x]) ! i"
      unfolding de using nth_append_length_plus[of "le32 2 @ [1]" "?nm @ [x]" i] by simp
    also have "\<dots> = ?nm ! i"
      by (subst nth_append) (use i in simp)
    finally show "read_bytes G 28805 58 ! i = ?nm ! i" .
  qed
  have d0: "rd32 G 12460 = 8" "rd32 G 12464 = 9" "rd32 G 12468 = 0"
    using dp[of 0] dp[of 1] dp[of 2] d by simp_all
  show ?thesis
    using run lenG same g4096 g8192 d0 e1 e2 e3 by blast
qed

subsection \<open>The scenario\<close>

lemma blocks_needed_5000: "((of_nat 5000 + (of_nat BS - 1)) div of_nat BS :: u64) = 2"
  by (simp add: BS_def)

text \<open>
  Claim C6, as the code has it. With 180 KiB and 128 inodes there are 45 blocks, 4 of them
  inode-table blocks, and the data region starts at block \<open>3 + 4 = 7\<close>; the root inode's
  first direct pointer is block 7 and of the data bitmap only bit 0 is set. Adding a file
  of 5000 bytes whose base name is neither \<open>.\<close> nor \<open>..\<close> needs 2 blocks and succeeds: bits
  1 and 2 of the data bitmap, the lowest clear ones, are set in this order (the new inode
  points to blocks 8 and 9 and to no third block), and slot 2 of the root directory holds
  inode number 2, type 1 (file) and the base name, cut to 57 bytes and NUL-padded.
\<close>

theorem scenario_180_128:
  assumes "length fbuf = 5000" and "0 \<notin> set filepath"
    and "basename filepath \<noteq> [0x2E]" and "basename filepath \<noteq> [0x2E, 0x2E]"
  shows "unat (total_blocks 180) = 45 \<and> unat (inode_table_blocks 128) = 4
    \<and> unat (data_region_start 128) = 7
    \<and> rd32 (fresh_image now stack) (3 * BS + off_i_direct) = ucast (data_region_start 128 + 0)
    \<and> fresh_image now stack ! (2 * BS) = 1
    \<and> ((of_nat (length fbuf) + (of_nat BS - 1)) div of_nat BS :: u64) = 2
    \<and> (\<exists>G. mkfs_adder_main (fresh_image now stack) filepath fbuf now' = Written G
         \<and> G ! (2 * BS) = 7
         \<and> rd32 G (3 * BS + INODE_SIZE + off_i_direct) = 8
         \<and> rd32 G (3 * BS + INODE_SIZE + off_i_direct + 4) = 9
         \<and> rd32 G (3 * BS + INODE_SIZE + off_i_direct + 8) = 0
         \<and> rd32 G (7 * BS + 2 * sizeof_dirent) = 2
         \<and> G ! (7 * BS + 2 * sizeof_dirent + off_de_type) = 1
         \<and> read_bytes G (7 * BS + 2 * sizeof_dirent + off_de_name) 58
             = take 57 (basename filepath)
               @ replicate (58 - length (take 57 (basename filepath))) 0)"
proof -
  have a: "unat (total_blocks 180) = 45" "unat (inode_table_blocks 128) = 4"
    "unat (data_region_start 128) = 7"
    by (simp_all add: layout_180_128)
  have b: "rd32 (fresh_image now stack) (3 * BS + off_i_direct) = ucast (data_region_start 128 + 0)"
    using fresh_root_direct[of now stack] by (simp add: BS_def layout_180_128)
  have c: "fresh_image now stack ! (2 * BS) = 1"
    by (simp add: BS_def fresh_nth_data_bm)
  have d: "((of_nat (length fbuf) + (of_nat BS - 1)) div of_nat BS :: u64) = 2"
    unfolding assms(1) by (rule blocks_needed_5000)
  from fresh_insert[OF assms, of now stack now'] obtain G where
    g: "mkfs_adder_main (fresh_image now stack) filepath fbuf now' = Written G"
      "G ! 8192 = 7" "rd32 G 12460 = 8" "rd32 G 12464 = 9" "rd32 G 12468 = 0"
      "rd32 G 28800 = 2" "G ! 28804 = 1"
      "read_bytes G 28805 58
        = take 57 (basename filepath) @ replicate (58 - length (take 57 (basename filepath))) 0"
    by blast
  have e: "\<exists>G. mkfs_adder_main (fresh_image now stack) filepath fbuf now' = Written G
         \<and> G ! (2 * BS) = 7
         \<and> rd32 G (3 * BS + INODE_SIZE + off_i_direct) = 8
         \<and> rd32 G (3 * BS + INODE_SIZE + off_i_direct + 4) = 9
         \<and> rd32 G (3 * BS + INODE_SIZE + off_i_direct + 8) = 0
         \<and> rd32 G (7 * BS + 2 * sizeof_dirent) = 2
         \<and> G ! (7 * BS + 2 * sizeof_dirent + off_de_type) = 1
         \<and> read_bytes G (7 * BS + 2 * sizeof_dirent + off_de_name) 58
             = take 57 (basename filepath)
               @ replicate (58 - length (take 57 (basename filepath))) 0"
    by (rule exI[of _ G])
       (use g in \<open>simp add: BS_def INODE_SIZE_def off_i_direct_def sizeof_dirent_def
          off_de_type_def off_de_name_def\<close>)
  show ?thesis
    using a b c d e by (simp only: simp_thms)
qed

text \<open>A file \<open>f\<close> of 5000 bytes \<open>A\<close>.\<close>

theorem scenario_180_128_witness:
  "\<exists>G. mkfs_adder_main (fresh_image 0 (replicate 3976 0)) [0x66] (replicate 5000 0x41) 0 = Written G
      \<and> G ! (2 * BS) = 7 \<and> rd32 G (7 * BS + 2 * sizeof_dirent) = 2
      \<and> read_bytes G (7 * BS + 2 * sizeof_dirent + off_de_name) 58 = 0x66 # replicate 57 0"
proof -
  have "basename [0x66] = [0x66]"
    by (simp add: basename_def)
  then show ?thesis
    using scenario_180_128[of "replicate 5000 0x41" "[0x66]" 0 "replicate 3976 0" 0]
    by auto
qed

text \<open>The data region does not start at block 4, as the specification's scenario has it.\<close>

theorem data_region_start_counterexample:
  "unat (data_region_start 128) = 7 \<and> data_region_start 128 \<noteq> 4"
  by (simp add: layout_180_128)

text \<open>The fresh image and files of 49153 and of 49152 bytes.\<close>

theorem file_too_large_witness:
  "mkfs_adder_main (fresh_image 0 (replicate 3976 0)) [0x66] (replicate 49153 0x41) 0
     = Fail FileTooLarge 1 (fresh_image 0 (replicate 3976 0))
   \<and> mkfs_adder_main (fresh_image 0 (replicate 3976 0)) [0x66] (replicate 49152 0x41) 0
     \<noteq> Fail FileTooLarge 1 (fresh_image 0 (replicate 3976 0))"
proof -
  let ?F = "fresh_image 0 (replicate 3976 0)"
  have h: "length ?F \<noteq> 0" "rd32 ?F off_sb_block_size = 4096" "rd32 ?F off_sb_magic = 0x4D565346"
    "bitmap_ffz ?F (unat (rd64 ?F off_sb_inode_bitmap_start * of_nat BS))
       (unat (rd64 ?F off_sb_inode_count)) = Some 1"
    by (simp_all add: fresh_superblock BS_def fresh_ffz_inode)
  show ?thesis
    using file_too_large[OF h, of "replicate 49153 0x41" "[0x66]" 0]
      file_too_large[OF h, of "replicate 49152 0x41" "[0x66]" 0]
    by simp
qed

subsection \<open>Checksums that are already in place\<close>

lemma write_bytes_same:
  assumes "off + length bs \<le> length m" "read_bytes m off (length bs) = bs"
  shows "write_bytes m off bs = m"
proof -
  have e: "take (length bs) (drop off m) @ drop (length bs + off) m = drop off m"
    using append_take_drop_id[of "length bs" "drop off m"] by (simp only: drop_drop)
  have "take off m @ take (length bs) (drop off m) @ drop (length bs + off) m = m"
    by (simp only: e append_take_drop_id)
  then show ?thesis
    using assms by (simp add: write_bytes_def read_bytes_def add.commute)
qed

lemma read_bytes_eqI:
  assumes "off + n \<le> length m" "length bs = n" "\<And>i. i < n \<Longrightarrow> m ! (off + i) = bs ! i"
  shows "read_bytes m off n = bs"
  by (rule nth_equalityI) (use assms in \<open>simp_all add: length_read_bytes nth_read_bytes\<close>)

lemma inode_adder_valid_frame:
  assumes m: "p + INODE_SIZE \<le> length m" and m': "p + INODE_SIZE \<le> length m'"
    and same: "\<And>i. i < 128 \<Longrightarrow> m' ! (p + i) = inode_crc_finalize_adder m p ! (p + i)"
  shows "inode_crc_finalize_adder m' p = m'"
proof -
  define c :: u64 where "c = ucast (crc32 (read_bytes m p 120 @ replicate 8 0))"
  have f: "inode_crc_finalize_adder m p = wr64 m (p + 120) c"
    using inode_crc_finalize_adder_eq[OF m] by (simp add: c_def off_i_inode_crc_def)
  have lo: "m' ! (p + i) = m ! (p + i)" if "i < 120" for i
    using that same[of i] by (simp add: f nth_wr64_other)
  have hi: "m' ! (p + 120 + j) = le64 c ! j" if "j < 8" for j
    using that same[of "120 + j"] m
    by (simp add: f wr64_def nth_write_bytes INODE_SIZE_def add.assoc)
  have r1: "read_bytes m' p 120 = read_bytes m p 120"
    by (rule read_bytes_eqI)
       (use m m' lo in \<open>simp_all add: INODE_SIZE_def length_read_bytes nth_read_bytes\<close>)
  have r2: "read_bytes m' (p + 120) (length (le64 c)) = le64 c"
    by (rule read_bytes_eqI) (use m' hi in \<open>simp_all add: INODE_SIZE_def\<close>)
  have "inode_crc_finalize_adder m' p = wr64 m' (p + 120) c"
    using inode_crc_finalize_adder_eq[OF m'] by (simp add: c_def off_i_inode_crc_def r1)
  also have "\<dots> = m'"
    unfolding wr64_def by (rule write_bytes_same[OF _ r2]) (use m' in \<open>simp add: INODE_SIZE_def\<close>)
  finally show ?thesis .
qed

lemma inode_builder_valid_frame:
  assumes m': "p + INODE_SIZE \<le> length m'"
    and lo: "read_bytes m' p 120 = d"
    and hi: "read_bytes m' (p + 120) 8 = le64 (ucast (crc32 d))"
  shows "inode_crc_finalize_builder m' p = m'"
proof -
  have "inode_crc_finalize_builder m' p = wr64 m' (p + 120) (ucast (crc32 d))"
    using inode_crc_finalize_builder_eq[OF m'] by (simp add: off_i_inode_crc_def lo)
  also have "\<dots> = m'"
    unfolding wr64_def
    by (rule write_bytes_same) (use m' hi in \<open>simp_all add: INODE_SIZE_def\<close>)
  finally show ?thesis .
qed

lemma dirent_valid_frame:
  assumes m': "p + 64 \<le> length m'" and d: "length d = 64"
    and same: "\<And>i. i < 64 \<Longrightarrow> m' ! (p + i) = dirent_checksum_finalize d 0 ! i"
  shows "dirent_checksum_finalize m' p = m'"
proof -
  define x where "x = foldl (\<lambda>x i. x XOR d ! (0 + i)) (0::u8) [0..<63]"
  have f: "dirent_checksum_finalize d 0 = d[63 := x]"
    by (simp add: dirent_checksum_finalize_def Let_def x_def off_de_checksum_def)
  have "foldl (\<lambda>x i. x XOR m' ! (p + i)) 0 [0..<63] = foldl (\<lambda>x i. x XOR d ! (0 + i)) 0 [0..<63]"
  proof (rule foldl_cong [OF refl refl])
    fix a :: u8 and i assume "i \<in> set [0..<63]"
    then have "i < 63"
      unfolding set_upt by simp
    then show "a XOR m' ! (p + i) = a XOR d ! (0 + i)"
      using same[of i] by (simp add: f)
  qed
  then have "dirent_checksum_finalize m' p = m'[p + 63 := x]"
    by (simp add: dirent_checksum_finalize_def Let_def x_def off_de_checksum_def)
  also have "m' ! (p + 63) = x"
    using same[of 63] d by (simp add: f)
  then have "m'[p + 63 := x] = m'"
    by (metis list_update_id)
  finally show ?thesis .
qed

subsection \<open>The finalize routines, run again\<close>

lemma inode_crc_finalize_builder_idem':
  "inode_crc_finalize_builder (inode_crc_finalize_builder mem p) p = inode_crc_finalize_builder mem p"
proof (cases "p + INODE_SIZE \<le> length mem")
  case True
  then show ?thesis
    by (rule inode_crc_finalize_builder_idem)
next
  case False
  then have "inode_crc_finalize_builder mem p = mem"
    by (simp add: inode_crc_finalize_builder_def Let_def wr64_def write_bytes_def
        off_i_inode_crc_def INODE_SIZE_def)
  then show ?thesis
    by simp
qed

lemma inode_crc_finalize_adder_idem':
  "inode_crc_finalize_adder (inode_crc_finalize_adder mem p) p = inode_crc_finalize_adder mem p"
  by (simp add: inode_crc_finalize_adder_def Let_def wr64_twice)


subsection \<open>What the builder has checksummed\<close>

lemma builder_writes_valid:
  assumes "180 \<le> size_kib" "size_kib \<le> 4096" "size_kib mod 4 = 0"
    and "128 \<le> inode_count" "inode_count \<le> 512"
  shows "inode_crc_finalize_builder
           (created_image (mkfs_builder_main (Some p) size_kib inode_count now stack))
           (unat inode_table_start * BS)
         = created_image (mkfs_builder_main (Some p) size_kib inode_count now stack)"
    and "dirent_checksum_finalize
           (created_image (mkfs_builder_main (Some p) size_kib inode_count now stack))
           (unat (data_region_start inode_count) * BS + 0 * sizeof_dirent)
         = created_image (mkfs_builder_main (Some p) size_kib inode_count now stack)"
    and "dirent_checksum_finalize
           (created_image (mkfs_builder_main (Some p) size_kib inode_count now stack))
           (unat (data_region_start inode_count) * BS + 1 * sizeof_dirent)
         = created_image (mkfs_builder_main (Some p) size_kib inode_count now stack)"
proof -
  let ?F = "created_image (mkfs_builder_main (Some p) size_kib inode_count now stack)"
  let ?root = "inode_bytes (root_inode inode_count now)"
  let ?c = "le64 (ucast (crc32 (take 120 ?root)))"
  let ?itb = "unat (inode_table_blocks inode_count)"
  let ?drb = "unat (data_region_blocks size_kib inode_count)"
  define P0 where "P0 = take 112 (superblock_bytes (builder_superblock size_kib inode_count now))
     @ le32 (crc32 (take 4092 (superblock_bytes (builder_superblock size_kib inode_count now) @ stack)))
     @ replicate 3980 0 @ 1 # replicate 4095 0 @ 1 # replicate 4095 0"
  define Z1 where "Z1 = replicate (?itb * 4096 - 128) (0::u8)"
  define Z2 where "Z2 = replicate (?drb * 4096 - 128) (0::u8)"
  have F: "?F = P0 @ take 120 ?root @ ?c @ Z1 @ dot @ dotdot @ Z2"
    unfolding builder_image[OF assms] P0_def Z1_def Z2_def by simp
  have lP0: "length P0 = 12288"
    by (simp add: P0_def)
  have b: "0 \<le> inode_count"
    using assms by simp
  have itb: "128 \<le> ?itb * 4096"
    using assms unat_inode_table_blocks[OF b assms(5)] by simp
  have drs: "unat (data_region_start inode_count) * BS = 12288 + ?itb * 4096"
    by (simp add: unat_data_region_start[OF b assms(5)] BS_def)
  have its: "unat inode_table_start * BS = 12288"
    by (simp add: inode_table_start_def BS_def)
  have lo: "read_bytes ?F 12288 120 = take 120 ?root"
    unfolding F read_bytes_def using lP0 by simp
  have hi: "read_bytes ?F (12288 + 120) 8 = ?c"
    unfolding F read_bytes_def using lP0 by simp
  have lenF: "12288 + INODE_SIZE \<le> length ?F"
    unfolding F using lP0 by (simp add: INODE_SIZE_def)
  show "inode_crc_finalize_builder ?F (unat inode_table_start * BS) = ?F"
    unfolding its by (rule inode_builder_valid_frame[OF lenF lo hi])
  define P1 where "P1 = P0 @ take 120 ?root @ ?c @ Z1"
  have lP1: "length P1 = 12288 + ?itb * 4096"
    using itb by (simp add: P1_def lP0 Z1_def)
  have F1: "?F = P1 @ dot @ dotdot @ Z2"
    by (simp add: F P1_def)
  have lenF1: "12288 + ?itb * 4096 + 128 \<le> length ?F"
    unfolding F1 by (simp add: lP1)
  have e0: "?F ! (12288 + ?itb * 4096 + i) = dot ! i" if "i < 64" for i
    unfolding F1 using that nth_append_length_plus[of P1 "dot @ dotdot @ Z2" i]
    by (simp add: lP1 nth_append)
  have e1: "?F ! (12288 + ?itb * 4096 + 64 + i) = dotdot ! i" if "i < 64" for i
  proof -
    have "?F ! (12288 + ?itb * 4096 + 64 + i) = ((P1 @ dot) @ dotdot @ Z2) ! (length (P1 @ dot) + i)"
      by (simp add: F1 lP1)
    also have "\<dots> = (dotdot @ Z2) ! i"
      by (rule nth_append_length_plus)
    finally show ?thesis
      using that by (simp add: nth_append)
  qed
  show "dirent_checksum_finalize ?F (unat (data_region_start inode_count) * BS + 0 * sizeof_dirent) = ?F"
    unfolding drs
    using dirent_valid_frame[of "12288 + ?itb * 4096" ?F "dirent_bytes (dir_entry [0x2E])"]
      lenF1 e0
    by (simp add: dot_def)
  show "dirent_checksum_finalize ?F (unat (data_region_start inode_count) * BS + 1 * sizeof_dirent) = ?F"
    unfolding drs
    using dirent_valid_frame[of "12288 + ?itb * 4096 + 64" ?F "dirent_bytes (dir_entry [0x2E, 0x2E])"]
      lenF1 e1
    by (simp add: dotdot_def sizeof_dirent_def)
qed

subsection \<open>What a successful run of the adder has done\<close>

lemma adder_success_cases:
  fixes img filepath fbuf now G
  defines "ibm \<equiv> unat (rd64 img off_sb_inode_bitmap_start * of_nat BS)"
    and "dbm \<equiv> unat (rd64 img off_sb_data_bitmap_start * of_nat BS)"
    and "itab \<equiv> unat (rd64 img off_sb_inode_table_start * of_nat BS)"
    and "bn \<equiv> ((of_nat (length fbuf) + (of_nat BS - 1)) div of_nat BS :: u64)"
  assumes run: "mkfs_adder_main img filepath fbuf now = Written G"
  shows "\<exists>free_in img1 direct slot used S1 S2 S3 S4 S5 S6 S7 S8 S9.
      bitmap_ffz img ibm (unat (rd64 img off_sb_inode_count)) = Some free_in
    \<and> \<not> bn > of_nat DIRECT_MAX
    \<and> alloc_blocks img dbm (unat (rd64 img off_sb_data_region_blocks))
         (rd64 img off_sb_data_region_start) [0..<unat bn] (replicate DIRECT_MAX 0)
        = Inr (img1, direct)
    \<and> rd32 img1 (itab + off_i_direct) \<noteq> 0
    \<and> dir_scan img1 (unat ((ucast (rd32 img1 (itab + off_i_direct)) :: u64) * of_nat BS))
         (basename filepath) [0..<BS div sizeof_dirent] None 0 = Inr (Some slot, used)
    \<and> S1 = write_bytes img1 (itab + free_in * INODE_SIZE)
              (inode_bytes (file_inode (length fbuf) now direct))
    \<and> S2 = inode_crc_finalize_adder S1 (itab + free_in * INODE_SIZE)
    \<and> S3 = bitmap_set S2 ibm free_in
    \<and> S4 = foldl (write_file_block fbuf (length fbuf) direct) S3 [0..<unat bn]
    \<and> S5 = write_bytes S4
              (unat ((ucast (rd32 img1 (itab + off_i_direct)) :: u64) * of_nat BS)
               + slot * sizeof_dirent)
              (dirent_checksum_finalize
                 (dirent_bytes (file_dirent (of_nat (free_in + 1)) (basename filepath))) 0)
    \<and> S6 = wr16 S5 (itab + off_i_links) (rd16 S5 (itab + off_i_links) + 1)
    \<and> S7 = wr64 S6 (itab + off_i_size_bytes) (of_nat ((used + 1) * sizeof_dirent))
    \<and> S8 = inode_crc_finalize_adder S7 itab
    \<and> S9 = wr64 S8 off_sb_mtime_epoch now
    \<and> G = superblock_crc_finalize_adder S9 0"
  using run unfolding mkfs_adder_main_def Let_def ibm_def dbm_def itab_def bn_def
  by (auto split: if_splits option.splits sum.splits prod.splits)

lemma dir_scan_slot:
  "dir_scan img dblk base is slot0 used0 = Inr (Some s, u) \<Longrightarrow> s \<in> set is \<or> slot0 = Some s"
  by (induction "is" arbitrary: slot0 used0) (auto split: if_splits)

lemma alloc_blocks_keeps:
  "alloc_blocks img dbm bits drs is direct = Inr (img', direct') \<Longrightarrow> k \<notin> set is \<Longrightarrow>
     direct' ! k = direct ! k"
proof (induction "is" arbitrary: img direct)
  case Nil
  then show ?case by simp
next
  case (Cons i "is")
  then show ?case
    by (cases "bitmap_ffz img dbm bits") auto
qed

lemma alloc_blocks_length:
  "alloc_blocks img dbm bits drs is direct = Inr (img', direct') \<Longrightarrow> length direct' = length direct"
proof (induction "is" arbitrary: img direct)
  case Nil
  then show ?case by simp
next
  case (Cons i "is")
  then show ?case
    by (cases "bitmap_ffz img dbm bits") auto
qed

lemma alloc_blocks_direct:
  assumes "alloc_blocks img dbm bits drs is direct = Inr (img', direct')"
    and "distinct is" and "\<And>i. i \<in> set is \<Longrightarrow> i < length direct" and "k \<in> set is"
  shows "\<exists>idx<bits. direct' ! k = ucast (drs + of_nat idx)"
  using assms
proof (induction "is" arbitrary: img direct)
  case Nil
  then show ?case by simp
next
  case (Cons i "is")
  show ?case
  proof (cases "bitmap_ffz img dbm bits")
    case None
    with Cons.prems(1) show ?thesis by simp
  next
    case (Some idx)
    then have idx: "idx < bits"
      by (simp add: bitmap_ffz_Some)
    from Cons.prems(1) Some
    have rec: "alloc_blocks (bitmap_set img dbm idx) dbm bits drs is
                 (direct[i := ucast (drs + of_nat idx)]) = Inr (img', direct')"
      by simp
    show ?thesis
    proof (cases "k = i")
      case True
      have "i \<notin> set is"
        using Cons.prems(2) by simp
      from alloc_blocks_keeps[OF rec this]
      have "direct' ! i = ucast (drs + of_nat idx)"
        using Cons.prems(3)[of i] by simp
      with True idx show ?thesis
        by blast
    next
      case False
      with Cons.prems(4) have k: "k \<in> set is"
        by simp
      show ?thesis
        by (rule Cons.IH[OF rec _ _ k]) (use Cons.prems(2,3) in auto)
    qed
  qed
qed

lemma length_foldl_write_file_block [simp]:
  "length (foldl (write_file_block fbuf fsz direct) img is) = length img"
  by (induction "is" arbitrary: img) simp_all

lemma nth_foldl_write_file_block_other:
  assumes "\<And>i. i \<in> set is \<Longrightarrow> a < unat (direct ! i) * BS \<or> unat (direct ! i) * BS + BS \<le> a"
  shows "foldl (write_file_block fbuf fsz direct) img is ! a = img ! a"
  using assms
proof (induction "is" arbitrary: img)
  case Nil
  then show ?case by simp
next
  case (Cons i "is")
  then show ?case
    by (simp add: nth_write_file_block_other)
qed

lemma unat_block_offset: "unat ((ucast (w :: u32) :: u64) * of_nat BS) = unat w * BS"
proof -
  have "unat w < 2 ^ 32"
    using unsigned_less[of w] by simp
  then have "unat w * 4096 < 2 ^ 64"
    by simp
  moreover have "unat (ucast w :: u64) = unat w"
    using \<open>unat w < 2 ^ 32\<close> by (simp add: unsigned_ucast_eq take_bit_nat_eq_self)
  ultimately show ?thesis
    by (simp add: BS_def unat_word_ariths)
qed

lemma unat_direct_pointer:
  assumes "unat (drs :: u64) + idx < 2 ^ 32"
  shows "unat (ucast (drs + of_nat idx) :: u32) = unat drs + idx"
proof -
  have "unat (drs + of_nat idx) = unat drs + idx"
    using assms by (simp add: unat_word_ariths unat_of_nat)
  then show ?thesis
    using assms by (simp add: unsigned_ucast_eq take_bit_nat_eq_self)
qed

subsection \<open>What the adder has checksummed\<close>

lemma adder_writes_valid:
  fixes img filepath fbuf now G
  defines "ibm \<equiv> unat (rd64 img off_sb_inode_bitmap_start * of_nat BS)"
    and "dbm \<equiv> unat (rd64 img off_sb_data_bitmap_start * of_nat BS)"
    and "itab \<equiv> unat (rd64 img off_sb_inode_table_start * of_nat BS)"
    and "cnt \<equiv> unat (rd64 img off_sb_inode_count)"
    and "drs \<equiv> unat (rd64 img off_sb_data_region_start)"
    and "drb \<equiv> unat (rd64 img off_sb_data_region_blocks)"
  defines "fdb \<equiv> unat (rd32 img (itab + off_i_direct))"
  assumes run: "mkfs_adder_main img filepath fbuf now = Written G"
    and w1: "sizeof_superblock \<le> itab"
    and w2: "ibm + (cnt + 7) div 8 \<le> itab"
    and w3: "dbm + (drb + 7) div 8 \<le> itab"
    and w4: "itab + cnt * INODE_SIZE \<le> drs * BS"
    and w5: "drs + drb \<le> 2 ^ 32"
    and w6: "drs \<le> fdb" "(fdb + 1) * BS \<le> length img"
  shows "\<exists>free_in slot.
      bitmap_ffz img ibm cnt = Some free_in \<and> slot < BS div sizeof_dirent
    \<and> length G = length img
    \<and> inode_crc_finalize_adder G itab = G
    \<and> inode_crc_finalize_adder G (itab + free_in * INODE_SIZE) = G
    \<and> rd32 G (fdb * BS + slot * sizeof_dirent) = of_nat (free_in + 1)
    \<and> dirent_checksum_finalize G (fdb * BS + slot * sizeof_dirent) = G"
proof -
  define bn :: u64 where "bn = (of_nat (length fbuf) + (of_nat BS - 1)) div of_nat BS"
  from adder_success_cases[OF run]
  obtain free_in img1 direct slot used S1 S2 S3 S4 S5 S6 S7 S8 S9 where
    ffz: "bitmap_ffz img ibm cnt = Some free_in"
    and small: "\<not> bn > of_nat DIRECT_MAX"
    and alloc: "alloc_blocks img dbm drb (rd64 img off_sb_data_region_start) [0..<unat bn]
                  (replicate DIRECT_MAX 0) = Inr (img1, direct)"
    and scan: "dir_scan img1 (unat ((ucast (rd32 img1 (itab + off_i_direct)) :: u64) * of_nat BS))
         (basename filepath) [0..<BS div sizeof_dirent] None 0 = Inr (Some slot, used)"
    and S1: "S1 = write_bytes img1 (itab + free_in * INODE_SIZE)
              (inode_bytes (file_inode (length fbuf) now direct))"
    and S2: "S2 = inode_crc_finalize_adder S1 (itab + free_in * INODE_SIZE)"
    and S3: "S3 = bitmap_set S2 ibm free_in"
    and S4: "S4 = foldl (write_file_block fbuf (length fbuf) direct) S3 [0..<unat bn]"
    and S5: "S5 = write_bytes S4
              (unat ((ucast (rd32 img1 (itab + off_i_direct)) :: u64) * of_nat BS)
               + slot * sizeof_dirent)
              (dirent_checksum_finalize
                 (dirent_bytes (file_dirent (of_nat (free_in + 1)) (basename filepath))) 0)"
    and S6: "S6 = wr16 S5 (itab + off_i_links) (rd16 S5 (itab + off_i_links) + 1)"
    and S7: "S7 = wr64 S6 (itab + off_i_size_bytes) (of_nat ((used + 1) * sizeof_dirent))"
    and S8: "S8 = inode_crc_finalize_adder S7 itab"
    and S9: "S9 = wr64 S8 off_sb_mtime_epoch now"
    and G: "G = superblock_crc_finalize_adder S9 0"
    unfolding ibm_def dbm_def itab_def cnt_def drb_def bn_def by blast
  define ino where "ino = itab + free_in * INODE_SIZE"
  define dslot where "dslot = fdb * BS + slot * sizeof_dirent"
  define de where "de = dirent_checksum_finalize
                 (dirent_bytes (file_dirent (of_nat (free_in + 1)) (basename filepath))) 0"
  have fi: "free_in < cnt"
    using bitmap_ffz_Some[OF ffz] by simp
  have eff: "length img1 = length img"
    "\<And>a. \<not> (dbm \<le> a \<and> a < dbm + (drb + 7) div 8) \<Longrightarrow> img1 ! a = img ! a"
    using alloc_blocks_effect[OF disjI2[OF alloc]] by simp_all
  have "rd32 img1 (itab + off_i_direct) = rd32 img (itab + off_i_direct)"
    by (rule rd32_cong) (use w3 in \<open>simp add: eff\<close>)
  then have dblk: "unat ((ucast (rd32 img1 (itab + off_i_direct)) :: u64) * of_nat BS) = fdb * BS"
    by (simp add: unat_block_offset fdb_def)
  have slot: "slot < BS div sizeof_dirent"
    using dir_scan_slot[OF scan] by simp
  have S5': "S5 = write_bytes S4 dslot de"
    unfolding S5 dblk dslot_def de_def ..
  have len: "length S1 = length img" "length S2 = length img" "length S3 = length img"
    "length S4 = length img" "length S5 = length img" "length S6 = length img"
    "length S7 = length img" "length S8 = length img" "length S9 = length img"
    "length G = length img"
    by (simp_all add: S1 S2 S3 S4 S5' S6 S7 S8 S9 G eff)
  have lde: "length de = 64"
    by (simp add: de_def)
  have ino_lo: "itab \<le> ino" and ino_hi: "ino + 128 \<le> drs * BS"
  proof -
    show "itab \<le> ino"
      by (simp add: ino_def)
    have "free_in * 128 + 128 \<le> cnt * 128"
      using fi by simp
    then show "ino + 128 \<le> drs * BS"
      using w4 by (simp add: ino_def INODE_SIZE_def)
  qed
  have slot_lo: "fdb * BS \<le> dslot" and slot_hi: "dslot + 64 \<le> fdb * BS + BS"
  proof -
    show "fdb * BS \<le> dslot"
      by (simp add: dslot_def)
    have "slot < 64"
      using slot by (simp add: BS_def sizeof_dirent_def)
    then show "dslot + 64 \<le> fdb * BS + BS"
      by (simp add: dslot_def BS_def sizeof_dirent_def)
  qed
  have reg: "drs * BS \<le> fdb * BS" "fdb * BS + BS \<le> length img"
    using w6 by simp_all
  have tail: "G ! a = S8 ! a" if "116 \<le> a" for a
    using that
    by (simp add: G S9 nth_sb_crc_adder_other nth_wr64_other off_sb_mtime_epoch_def)
  have w1': "116 \<le> itab"
    using w1 by (simp add: sizeof_superblock_def)
  have root: "inode_crc_finalize_adder G itab = G"
  proof (rule inode_adder_valid_frame[of itab S7 G])
    show "itab + INODE_SIZE \<le> length S7" "itab + INODE_SIZE \<le> length G"
      using ino_lo ino_hi reg unfolding len INODE_SIZE_def by linarith+
    show "G ! (itab + i) = inode_crc_finalize_adder S7 itab ! (itab + i)" if "i < 128" for i
      using w1' by (simp add: tail S8)
  qed
  have dirent: "G ! (dslot + i) = de ! i" if "i < 64" for i
  proof -
    have far: "itab + 128 \<le> dslot + i"
      using ino_lo ino_hi reg slot_lo by linarith
    then have "G ! (dslot + i) = S8 ! (dslot + i)"
      using w1' by (simp add: tail)
    also have "\<dots> = S5 ! (dslot + i)"
      using far
      by (simp add: S8 S7 S6 nth_inode_crc_adder_other nth_wr64_other nth_wr16_other
          off_i_links_def off_i_size_bytes_def)
    also have "\<dots> = de ! i"
    proof -
      have "dslot + 64 \<le> length S4"
        using slot_hi reg unfolding len by linarith
      then show ?thesis
        using that by (simp add: S5' nth_write_bytes lde)
    qed
    finally show ?thesis .
  qed
  have entry: "dirent_checksum_finalize G dslot = G"
  proof (rule dirent_valid_frame[of dslot G
        "dirent_bytes (file_dirent (of_nat (free_in + 1)) (basename filepath))"])
    show "dslot + 64 \<le> length G"
      using slot_hi reg unfolding len by linarith
    show "length (dirent_bytes (file_dirent (of_nat (free_in + 1)) (basename filepath))) = 64"
      by simp
    show "G ! (dslot + i) = dirent_checksum_finalize
        (dirent_bytes (file_dirent (of_nat (free_in + 1)) (basename filepath))) 0 ! i"
      if "i < 64" for i
      using dirent[OF that] by (simp add: de_def)
  qed
  have number: "rd32 G dslot = of_nat (free_in + 1)"
  proof -
    obtain x where x: "de = le32 (of_nat (free_in + 1)) @ [1]
        @ (take 57 (basename filepath) @ replicate (58 - length (take 57 (basename filepath))) 0) @ [x]"
      using file_dirent_layout[of "of_nat (free_in + 1)" "basename filepath"] de_def by blast
    have "rd32 G dslot = rd32 de 0"
      by (rule rd32_cong) (simp add: dirent)
    also have "\<dots> = of_nat (free_in + 1)"
      unfolding x using rd32_at[of "[]" 0 "of_nat (free_in + 1)"] by simp
    finally show ?thesis .
  qed
  have bn12: "unat bn \<le> 12"
  proof -
    have "bn \<le> 12"
      using small by (simp add: DIRECT_MAX_def not_less)
    then show ?thesis
      by (simp add: word_le_nat_alt)
  qed
  have blocks: "drs * BS \<le> unat (direct ! i) * BS" if "i < unat bn" for i
  proof -
    from alloc_blocks_direct[OF alloc, of i] that bn12
    obtain idx where idx: "idx < drb" "direct ! i = ucast (rd64 img off_sb_data_region_start + of_nat idx)"
      by (auto simp: DIRECT_MAX_def)
    have "unat (direct ! i) = drs + idx"
      unfolding idx(2) drs_def
      by (rule unat_direct_pointer) (use idx(1) w5 in \<open>simp add: drs_def\<close>)
    then show ?thesis
      by simp
  qed
  have fresh: "inode_crc_finalize_adder G ino = G"
  proof (cases "free_in = 0")
    case True
    then show ?thesis
      using root by (simp add: ino_def)
  next
    case False
    then have above: "itab + 128 \<le> ino"
      by (simp add: ino_def INODE_SIZE_def)
    show ?thesis
    proof (rule inode_adder_valid_frame[of ino S1 G])
      show "ino + INODE_SIZE \<le> length S1" "ino + INODE_SIZE \<le> length G"
        using ino_hi reg unfolding len INODE_SIZE_def by linarith+
      show "G ! (ino + i) = inode_crc_finalize_adder S1 ino ! (ino + i)" if "i < 128" for i
      proof -
        have "G ! (ino + i) = S8 ! (ino + i)"
          using w1' ino_lo by (simp add: tail)
        also have "\<dots> = S5 ! (ino + i)"
          using above
          by (simp add: S8 S7 S6 nth_inode_crc_adder_other nth_wr64_other nth_wr16_other
              off_i_links_def off_i_size_bytes_def)
        also have "\<dots> = S4 ! (ino + i)"
          unfolding S5' by (rule nth_write_bytes_other) (use that ino_hi reg slot_lo in linarith)
        also have "\<dots> = S3 ! (ino + i)"
          unfolding S4
        proof (rule nth_foldl_write_file_block_other)
          fix k assume "k \<in> set [0..<unat bn]"
          then have "drs * BS \<le> unat (direct ! k) * BS"
            using blocks[of k] by simp
          then show "ino + i < unat (direct ! k) * BS \<or> unat (direct ! k) * BS + BS \<le> ino + i"
            using that ino_hi by linarith
        qed
        also have "\<dots> = S2 ! (ino + i)"
          unfolding S3
        proof (rule nth_bitmap_set_other)
          have "free_in div 8 < (cnt + 7) div 8"
            using fi by arith
          then show "ino + i \<noteq> ibm + free_in div 8"
            using w2 ino_lo by linarith
        qed
        finally show ?thesis
          by (simp add: S2 ino_def)
      qed
    qed
  qed
  show ?thesis
    using ffz slot len(10) root fresh number entry unfolding ino_def dslot_def by blast
qed

section \<open>The checksums the two programs have written\<close>

lemma wr64_beyond: "\<not> a + 8 \<le> length mem \<Longrightarrow> wr64 mem a v = mem"
  by (simp add: wr64_def write_bytes_def)

lemma inode_crc_finalize_builder_wr':
  "inode_crc_finalize_builder (wr64 mem (p + off_i_inode_crc) v) p = inode_crc_finalize_builder mem p"
proof (cases "p + INODE_SIZE \<le> length mem")
  case True
  then show ?thesis
    by (rule inode_crc_finalize_builder_wr)
next
  case False
  then have "wr64 mem (p + off_i_inode_crc) v = mem"
    by (intro wr64_beyond) (simp add: off_i_inode_crc_def INODE_SIZE_def)
  then show ?thesis
    by simp
qed

lemma inode_crc_finalize_adder_wr':
  "inode_crc_finalize_adder (wr64 mem (p + off_i_inode_crc) v) p = inode_crc_finalize_adder mem p"
  by (simp add: inode_crc_finalize_adder_def Let_def wr64_twice)

lemma builder_validated:
  assumes "mkfs_builder_main image_path size_kib inode_count now stack = Created F"
  shows "\<exists>p. image_path = Some p" "180 \<le> size_kib" "size_kib \<le> 4096" "size_kib mod 4 = 0"
    "128 \<le> inode_count" "inode_count \<le> 512"
proof -
  have "\<not> (image_path = None \<or> size_kib < 180 \<or> size_kib > 4096 \<or> size_kib mod 4 \<noteq> 0
         \<or> inode_count < 128 \<or> inode_count > 512)"
  proof
    assume c: "image_path = None \<or> size_kib < 180 \<or> size_kib > 4096 \<or> size_kib mod 4 \<noteq> 0
         \<or> inode_count < 128 \<or> inode_count > 512"
    have "mkfs_builder_main image_path size_kib inode_count now stack = BuilderFail UsageError 2"
      unfolding mkfs_builder_main_def by (simp only: c if_True)
    with assms show False
      by simp
  qed
  then show "\<exists>p. image_path = Some p" "180 \<le> size_kib" "size_kib \<le> 4096" "size_kib mod 4 = 0"
    "128 \<le> inode_count" "inode_count \<le> 512"
    by auto
qed

text \<open>
  Claim C9. Every inode and every directory entry that either program writes carries a
  checksum that its own routine reproduces after the checksum field has been zeroed.

  \<^item> The builder: in every image that \<^verbatim>\<open>mkfs_builder\<close> creates, the root inode (at the start
    of the inode table) and the entries \<open>.\<close> and \<open>..\<close> (slots 0 and 1 of the first block of
    the data region) are reproduced by \<^verbatim>\<open>inode_crc_finalize\<close> and
    \<^verbatim>\<open>dirent_checksum_finalize\<close>.
  \<^item> The adder: in every image that a successful run of \<^verbatim>\<open>mkfs_adder\<close> writes, the inode of
    the new file (index \<open>free_in\<close>, the first clear bit of the inode bitmap), the root inode,
    whose link count and size the run has changed, and the new directory entry (a slot of
    the root's first directory block that holds inode number \<open>free_in + 1\<close>) are reproduced
    by the adder's \<^verbatim>\<open>inode_crc_finalize\<close> and by \<^verbatim>\<open>dirent_checksum_finalize\<close>. The image
    the run was given is one whose regions lie as the superblock says: the two bitmaps
    before the inode table, the inode table after the superblock and before the data
    region, block numbers of the data region within 32 bits, and the root's directory block
    in the data region and in the file.
  \<^item> Each of the five finalize routines, applied a second time, changes nothing, and
    applied to its own output with the checksum field zeroed gives that output again,
    wherever the pointer points.
\<close>

theorem written_checksums_round_trip:
  fixes img F G mem :: "u8 list" and inode_count :: int
  defines "ibm \<equiv> unat (rd64 img off_sb_inode_bitmap_start * of_nat BS)"
    and "dbm \<equiv> unat (rd64 img off_sb_data_bitmap_start * of_nat BS)"
    and "itab \<equiv> unat (rd64 img off_sb_inode_table_start * of_nat BS)"
    and "cnt \<equiv> unat (rd64 img off_sb_inode_count)"
    and "drs \<equiv> unat (rd64 img off_sb_data_region_start)"
    and "drb \<equiv> unat (rd64 img off_sb_data_region_blocks)"
  defines "fdb \<equiv> unat (rd32 img (itab + off_i_direct))"
  defines "rootp \<equiv> unat inode_table_start * BS"
    and "dirp \<equiv> unat (data_region_start inode_count) * BS"
  shows
    "(mkfs_builder_main image_path size_kib inode_count now stack = Created F \<longrightarrow>
        inode_crc_finalize_builder (wr64 F (rootp + off_i_inode_crc) 0) rootp = F
      \<and> dirent_checksum_finalize (F[dirp + 0 * sizeof_dirent + off_de_checksum := 0])
          (dirp + 0 * sizeof_dirent) = F
      \<and> dirent_checksum_finalize (F[dirp + 1 * sizeof_dirent + off_de_checksum := 0])
          (dirp + 1 * sizeof_dirent) = F)
   \<and> (mkfs_adder_main img filepath fbuf now' = Written G
        \<and> sizeof_superblock \<le> itab
        \<and> ibm + (cnt + 7) div 8 \<le> itab \<and> dbm + (drb + 7) div 8 \<le> itab
        \<and> itab + cnt * INODE_SIZE \<le> drs * BS
        \<and> drs + drb \<le> 2 ^ 32
        \<and> drs \<le> fdb \<and> (fdb + 1) * BS \<le> length img \<longrightarrow>
        (\<exists>free_in slot.
            bitmap_ffz img ibm cnt = Some free_in \<and> slot < BS div sizeof_dirent
          \<and> rd32 G (fdb * BS + slot * sizeof_dirent) = of_nat (free_in + 1)
          \<and> inode_crc_finalize_adder
              (wr64 G (itab + free_in * INODE_SIZE + off_i_inode_crc) 0)
              (itab + free_in * INODE_SIZE) = G
          \<and> inode_crc_finalize_adder (wr64 G (itab + off_i_inode_crc) 0) itab = G
          \<and> dirent_checksum_finalize
              (G[fdb * BS + slot * sizeof_dirent + off_de_checksum := 0])
              (fdb * BS + slot * sizeof_dirent) = G))
   \<and> inode_crc_finalize_builder (inode_crc_finalize_builder mem p) p
       = inode_crc_finalize_builder mem p
   \<and> inode_crc_finalize_adder (inode_crc_finalize_adder mem p) p
       = inode_crc_finalize_adder mem p
   \<and> dirent_checksum_finalize (dirent_checksum_finalize mem p) p
       = dirent_checksum_finalize mem p
   \<and> superblock_crc_finalize_builder (superblock_crc_finalize_builder mem p) p
       = superblock_crc_finalize_builder mem p
   \<and> superblock_crc_finalize_adder (superblock_crc_finalize_adder mem p) p
       = superblock_crc_finalize_adder mem p
   \<and> inode_crc_finalize_builder
       (wr64 (inode_crc_finalize_builder mem p) (p + off_i_inode_crc) 0) p
       = inode_crc_finalize_builder mem p
   \<and> inode_crc_finalize_adder
       (wr64 (inode_crc_finalize_adder mem p) (p + off_i_inode_crc) 0) p
       = inode_crc_finalize_adder mem p
   \<and> dirent_checksum_finalize
       ((dirent_checksum_finalize mem p)[p + off_de_checksum := 0]) p
       = dirent_checksum_finalize mem p"
proof -
  have builder: "inode_crc_finalize_builder (wr64 F (rootp + off_i_inode_crc) 0) rootp = F
      \<and> dirent_checksum_finalize (F[dirp + 0 * sizeof_dirent + off_de_checksum := 0])
          (dirp + 0 * sizeof_dirent) = F
      \<and> dirent_checksum_finalize (F[dirp + 1 * sizeof_dirent + off_de_checksum := 0])
          (dirp + 1 * sizeof_dirent) = F"
    if run: "mkfs_builder_main image_path size_kib inode_count now stack = Created F"
  proof -
    from builder_validated(1)[OF run] obtain q where q: "image_path = Some q" ..
    note v = builder_validated(2-6)[OF run]
    have F: "created_image (mkfs_builder_main (Some q) size_kib inode_count now stack) = F"
      using run q by simp
    note valid = builder_writes_valid[OF v, of q now stack, unfolded F]
    show ?thesis
      unfolding rootp_def dirp_def inode_crc_finalize_builder_wr' dirent_checksum_finalize_update
      using valid by (simp only: simp_thms)
  qed
  have adder: "\<exists>free_in slot.
            bitmap_ffz img ibm cnt = Some free_in \<and> slot < BS div sizeof_dirent
          \<and> rd32 G (fdb * BS + slot * sizeof_dirent) = of_nat (free_in + 1)
          \<and> inode_crc_finalize_adder
              (wr64 G (itab + free_in * INODE_SIZE + off_i_inode_crc) 0)
              (itab + free_in * INODE_SIZE) = G
          \<and> inode_crc_finalize_adder (wr64 G (itab + off_i_inode_crc) 0) itab = G
          \<and> dirent_checksum_finalize
              (G[fdb * BS + slot * sizeof_dirent + off_de_checksum := 0])
              (fdb * BS + slot * sizeof_dirent) = G"
    if run: "mkfs_adder_main img filepath fbuf now' = Written G"
      and w: "sizeof_superblock \<le> itab" "ibm + (cnt + 7) div 8 \<le> itab"
        "dbm + (drb + 7) div 8 \<le> itab" "itab + cnt * INODE_SIZE \<le> drs * BS"
        "drs + drb \<le> 2 ^ 32" "drs \<le> fdb" "(fdb + 1) * BS \<le> length img"
    using adder_writes_valid[OF run w[unfolded ibm_def dbm_def itab_def cnt_def drs_def drb_def fdb_def]]
    unfolding ibm_def dbm_def itab_def cnt_def drs_def drb_def fdb_def
      inode_crc_finalize_adder_wr' dirent_checksum_finalize_update
    by (elim exE conjE, intro exI conjI) assumption+
  have idem: "inode_crc_finalize_builder (inode_crc_finalize_builder mem p) p
       = inode_crc_finalize_builder mem p"
    "inode_crc_finalize_adder (inode_crc_finalize_adder mem p) p
       = inode_crc_finalize_adder mem p"
    "dirent_checksum_finalize (dirent_checksum_finalize mem p) p
       = dirent_checksum_finalize mem p"
    "superblock_crc_finalize_builder (superblock_crc_finalize_builder mem p) p
       = superblock_crc_finalize_builder mem p"
    "superblock_crc_finalize_adder (superblock_crc_finalize_adder mem p) p
       = superblock_crc_finalize_adder mem p"
    by (rule inode_crc_finalize_builder_idem' inode_crc_finalize_adder_idem'
        dirent_checksum_finalize_idem superblock_crc_finalize_builder_idem
        superblock_crc_finalize_adder_idem)+
  have trip: "inode_crc_finalize_builder
       (wr64 (inode_crc_finalize_builder mem p) (p + off_i_inode_crc) 0) p
       = inode_crc_finalize_builder mem p"
    "inode_crc_finalize_adder
       (wr64 (inode_crc_finalize_adder mem p) (p + off_i_inode_crc) 0) p
       = inode_crc_finalize_adder mem p"
    "dirent_checksum_finalize
       ((dirent_checksum_finalize mem p)[p + off_de_checksum := 0]) p
       = dirent_checksum_finalize mem p"
    unfolding inode_crc_finalize_builder_wr' inode_crc_finalize_adder_wr'
      dirent_checksum_finalize_update
    by (rule idem)+
  have B: "mkfs_builder_main image_path size_kib inode_count now stack = Created F \<longrightarrow>
        inode_crc_finalize_builder (wr64 F (rootp + off_i_inode_crc) 0) rootp = F
      \<and> dirent_checksum_finalize (F[dirp + 0 * sizeof_dirent + off_de_checksum := 0])
          (dirp + 0 * sizeof_dirent) = F
      \<and> dirent_checksum_finalize (F[dirp + 1 * sizeof_dirent + off_de_checksum := 0])
          (dirp + 1 * sizeof_dirent) = F"
    by (rule impI) (rule builder)
  have A: "mkfs_adder_main img filepath fbuf now' = Written G
        \<and> sizeof_superblock \<le> itab
        \<and> ibm + (cnt + 7) div 8 \<le> itab \<and> dbm + (drb + 7) div 8 \<le> itab
        \<and> itab + cnt * INODE_SIZE \<le> drs * BS
        \<and> drs + drb \<le> 2 ^ 32
        \<and> drs \<le> fdb \<and> (fdb + 1) * BS \<le> length img \<longrightarrow>
        (\<exists>free_in slot.
            bitmap_ffz img ibm cnt = Some free_in \<and> slot < BS div sizeof_dirent
          \<and> rd32 G (fdb * BS + slot * sizeof_dirent) = of_nat (free_in + 1)
          \<and> inode_crc_finalize_adder
              (wr64 G (itab + free_in * INODE_SIZE + off_i_inode_crc) 0)
              (itab + free_in * INODE_SIZE) = G
          \<and> inode_crc_finalize_adder (wr64 G (itab + off_i_inode_crc) 0) itab = G
          \<and> dirent_checksum_finalize
              (G[fdb * BS + slot * sizeof_dirent + off_de_checksum := 0])
              (fdb * BS + slot * sizeof_dirent) = G)"
    by (rule impI, elim conjE, rule adder)
  show ?thesis
    by (intro conjI B A idem trip)
qed

text \<open>The image of 180 KiB with 128 inodes, and a file \<open>f\<close> of 5000 bytes \<open>A\<close> added to it:
  the root inode at 12288, the new inode at 12416, the root's directory block at 28672.\<close>

theorem written_checksums_round_trip_witness:
  "\<exists>F G slot.
      mkfs_builder_main (Some []) 180 128 0 (replicate 3976 0) = Created F
    \<and> mkfs_adder_main F [0x66] (replicate 5000 0x41) 0 = Written G
    \<and> inode_crc_finalize_builder (wr64 F (12288 + off_i_inode_crc) 0) 12288 = F
    \<and> dirent_checksum_finalize (F[28672 + off_de_checksum := 0]) 28672 = F
    \<and> dirent_checksum_finalize (F[28736 + off_de_checksum := 0]) 28736 = F
    \<and> slot < 64 \<and> rd32 G (28672 + slot * 64) = 2
    \<and> inode_crc_finalize_adder (wr64 G (12416 + off_i_inode_crc) 0) 12416 = G
    \<and> inode_crc_finalize_adder (wr64 G (12288 + off_i_inode_crc) 0) 12288 = G
    \<and> dirent_checksum_finalize (G[28672 + slot * 64 + off_de_checksum := 0]) (28672 + slot * 64) = G"
proof -
  let ?st = "replicate 3976 (0::u8)"
  let ?F = "fresh_image 0 ?st"
  have b: "mkfs_builder_main (Some []) 180 128 0 ?st = Created ?F"
    unfolding fresh_image_def using builder_created[of 180 128 "[]" 0 ?st] by simp
  have "basename [0x66] = [0x66]"
    by (simp add: basename_def)
  with fresh_insert[of "replicate 5000 0x41" "[0x66]" 0 ?st 0]
  obtain G where run: "mkfs_adder_main ?F [0x66] (replicate 5000 0x41) 0 = Written G"
    by auto
  have sb: "unat (rd64 ?F off_sb_inode_bitmap_start * of_nat BS) = 4096"
    "unat (rd64 ?F off_sb_data_bitmap_start * of_nat BS) = 8192"
    "unat (rd64 ?F off_sb_inode_table_start * of_nat BS) = 12288"
    "unat (rd64 ?F off_sb_inode_count) = 128"
    "unat (rd64 ?F off_sb_data_region_start) = 7"
    "unat (rd64 ?F off_sb_data_region_blocks) = 38"
    by (simp_all add: fresh_superblock BS_def)
  have fdb: "unat (rd32 ?F (12288 + off_i_direct)) = 7"
    by (simp add: fresh_root_direct)
  have lay: "unat inode_table_start * BS = 12288" "unat (data_region_start 128) * BS = 28672"
    by (simp_all add: inode_table_start_def layout_180_128 BS_def)
  note T = written_checksums_round_trip[where image_path = "Some []" and size_kib = 180
      and inode_count = 128 and now = 0 and stack = ?st and F = ?F and img = ?F
      and filepath = "[0x66]" and fbuf = "replicate 5000 0x41" and now' = 0 and G = G
      and mem = "[]" and p = 0,
      unfolded sb fdb lay fresh_ffz_inode]
  from T b have B: "inode_crc_finalize_builder (wr64 ?F (12288 + off_i_inode_crc) 0) 12288 = ?F"
    "dirent_checksum_finalize (?F[28672 + off_de_checksum := 0]) 28672 = ?F"
    "dirent_checksum_finalize (?F[28736 + off_de_checksum := 0]) 28736 = ?F"
    by (simp_all add: sizeof_dirent_def)
  from T run obtain slot where A: "slot < 64" "rd32 G (28672 + slot * 64) = 2"
    "inode_crc_finalize_adder (wr64 G (12416 + off_i_inode_crc) 0) 12416 = G"
    "inode_crc_finalize_adder (wr64 G (12288 + off_i_inode_crc) 0) 12288 = G"
    "dirent_checksum_finalize (G[28672 + slot * 64 + off_de_checksum := 0]) (28672 + slot * 64) = G"
    by (auto simp: sizeof_superblock_def BS_def INODE_SIZE_def sizeof_dirent_def)
  show ?thesis
    by (rule exI[of _ ?F], rule exI[of _ G], rule exI[of _ slot], intro conjI)
       (rule b run B A)+
qed

end
